theory Spec2Isabelle
  imports Main "HOL-Library.Word"
begin

section \<open>The voice assistant page (src/app/page.tsx) as a state machine\<close>

text \<open>
  The React component \<^verbatim>\<open>VoiceAssistant\<close> is embedded as a record of its state
  variables and refs, together with the parts of the browser it talks to (the clock and
  timer queue, the speech recogniser, the speech synthesiser, the requests in flight).
  Every callback of the component is a function from state to state. A callback that
  reads state variables through a closure created at an earlier render takes the captured
  values as an explicit argument of type \<open>render\<close>.
\<close>

subsection \<open>JavaScript strings\<close>

text \<open>A JavaScript string is a sequence of 16-bit code units.\<close>

type_synonym jsstring = "16 word list"

definition js :: "string \<Rightarrow> jsstring" where
  "js cs = map (\<lambda>c. of_nat (of_char c)) cs"

text \<open>White space and line terminators of ECMAScript, which \<^verbatim>\<open>String.prototype.trim\<close> strips.\<close>

definition isWhiteSpace :: "16 word \<Rightarrow> bool" where
  "isWhiteSpace c \<longleftrightarrow>
     c \<in> {0x09, 0x0A, 0x0B, 0x0C, 0x0D, 0x20, 0xA0, 0x1680, 0x2028, 0x2029, 0x202F,
          0x205F, 0x3000, 0xFEFF}
     \<or> (0x2000 \<le> c \<and> c \<le> 0x200A)"

definition trim :: "jsstring \<Rightarrow> jsstring" where
  "trim t = rev (dropWhile isWhiteSpace (rev (dropWhile isWhiteSpace t)))"

text \<open>\<^verbatim>\<open>!text.trim()\<close>: the trimmed string is empty.\<close>

definition blank :: "jsstring \<Rightarrow> bool" where
  "blank t \<longleftrightarrow> trim t = []"

text \<open>
  \<^verbatim>\<open>encodeURIComponent\<close> throws a URIError on a lone surrogate; \<open>wellFormed t\<close> says that it
  returns.
\<close>

fun wellFormed :: "jsstring \<Rightarrow> bool" where
  "wellFormed [] = True"
| "wellFormed [c] = (\<not> (0xD800 \<le> c \<and> c \<le> 0xDFFF))"
| "wellFormed (c # d # ds) =
     (if 0xD800 \<le> c \<and> c \<le> 0xDBFF then 0xDC00 \<le> d \<and> d \<le> 0xDFFF \<and> wellFormed ds
      else if 0xDC00 \<le> c \<and> c \<le> 0xDFFF then False
      else wellFormed (d # ds))"

text \<open>The cross mark U+274C that starts the error texts.\<close>

definition crossMark :: jsstring where
  "crossMark = [0x274C]"

subsection \<open>Data model\<close>

datatype sender = User | Bot

datatype msgType = TextMsg | StatusMsg | ErrorMsg

datatype ChatMode = Chat | Voice | VoiceCont

text \<open>
  \<open>msg_id\<close> is the template string \<^verbatim>\<open>`${Date.now()}-${messageCounterRef.current}`\<close>, kept as
  the pair of its two numbers. Times are milliseconds.
\<close>

record Message =
  msg_id :: "nat \<times> nat"
  msg_text :: jsstring
  msg_sender :: sender
  msg_timestamp :: nat
  msg_type :: msgType

text \<open>The state variables that the closures of one render have captured.\<close>

record render =
  r_currentMode :: ChatMode
  r_isProcessing :: bool
  r_connectionOnline :: bool
  r_speechEnabled :: bool

text \<open>
  A call of \<^verbatim>\<open>sendMessage\<close> suspended at one of its two \<^verbatim>\<open>await\<close>s: at \<^verbatim>\<open>fetch\<close>, or at
  \<^verbatim>\<open>response.json()\<close>.
\<close>

datatype phase = AwaitingFetch | AwaitingJson

record request =
  rq_id :: nat
  rq_question :: jsstring
  rq_render :: render
  rq_phase :: phase

text \<open>The two callbacks that the component hands to \<^verbatim>\<open>setTimeout\<close>.\<close>

datatype timerAction = RemoveStatus "nat \<times> nat" | AbortFetch nat

datatype synthCall = SynthCancel | SynthSpeak jsstring

datatype recCall = RecStart | RecStop

datatype thrown = AbortError | OtherError

datatype recError = NoSpeech | NotAllowed | Network | OtherRecError

datatype jsonOutcome = JsonFailed | JsonParsed "jsstring option"

record state =
  messages :: "Message list"
  inputText :: jsstring
  currentMode :: ChatMode
  isProcessing :: bool
  isTyping :: bool
  speechEnabled :: bool
  isRecording :: bool
  isSpeaking :: bool
  connectionOnline :: bool
  messageCounter :: nat
  utteranceRef :: "jsstring option"
  recognitionSupported :: bool
  recHandlers :: "render option"
  recActive :: bool
  recCalls :: "recCall list"
  synthSpeaking :: bool
  synthQueue :: "jsstring list"
  synthCalls :: "synthCall list"
  synthCancelled :: nat
  navigatorOnLine :: bool
  inflight :: "request list"
  fetchLog :: "jsstring list"
  nextRequest :: nat
  timers :: "(nat \<times> timerAction) list"
  clock :: nat

text \<open>
  Beyond the nine state variables and the refs of the component: \<open>recognitionSupported\<close> is
  \<^verbatim>\<open>recognitionRef.current !== null\<close>; \<open>recHandlers\<close> is the render captured by the handlers
  last assigned to the recogniser; \<open>recActive\<close> says that the recogniser has been started and
  has not ended; \<open>synthSpeaking\<close> is \<^verbatim>\<open>speechSynthesis.speaking\<close> and \<open>synthQueue\<close> the
  utterances handed to \<^verbatim>\<open>speechSynthesis.speak\<close> and neither finished nor cancelled;
  \<open>synthCancelled\<close> counts the cancelled utterances whose handlers have not yet been told;
  \<open>recCalls\<close>, \<open>synthCalls\<close> and \<open>fetchLog\<close> record the calls made to the recogniser, to
  the synthesiser and to \<^verbatim>\<open>fetch\<close> (by question); \<open>inflight\<close> holds the suspended calls of
  \<^verbatim>\<open>sendMessage\<close>; \<open>timers\<close> holds the pending timeouts with their due times; \<open>clock\<close> is
  \<^verbatim>\<open>Date.now()\<close>.
\<close>

definition render_of :: "state \<Rightarrow> render" where
  "render_of s =
     \<lparr>r_currentMode = currentMode s, r_isProcessing = isProcessing s,
      r_connectionOnline = connectionOnline s, r_speechEnabled = speechEnabled s\<rparr>"

definition init :: "bool \<Rightarrow> bool \<Rightarrow> state" where
  "init supported online =
     \<lparr>messages = [], inputText = [], currentMode = Chat, isProcessing = False,
      isTyping = False, speechEnabled = True, isRecording = False, isSpeaking = False,
      connectionOnline = True, messageCounter = 0, utteranceRef = None,
      recognitionSupported = supported, recHandlers = None, recActive = False,
      recCalls = [], synthSpeaking = False, synthQueue = [], synthCalls = [],
      synthCancelled = 0, navigatorOnLine = online, inflight = [], fetchLog = [], nextRequest = 0,
      timers = [], clock = 0\<rparr>"

subsection \<open>The message texts\<close>

definition noConnectionText :: jsstring where
  "noConnectionText =
     crossMark @ js '' No internet connection. Please check your network and try again.''"

definition fallbackAnswer :: jsstring where
  "fallbackAnswer = js ''I didn'' @ [0x27] @ js ''t receive a proper response.''"

definition troubleText :: jsstring where
  "troubleText = js ''I'' @ [0x27] @ js ''m having trouble connecting right now. ''"

definition timedOutText :: jsstring where
  "timedOutText = js ''Request timed out. Please try again.''"

definition offlineText :: jsstring where
  "offlineText = js ''You appear to be offline. Please check your internet connection.''"

definition notSupportedText :: jsstring where
  "notSupportedText = js ''Voice recognition not supported in this browser''"

definition failedToStartText :: jsstring where
  "failedToStartText = js ''Failed to start voice recognition. Please try again.''"

fun recErrorText :: "recError \<Rightarrow> jsstring" where
  "recErrorText NoSpeech =
     js ''Voice recognition error. '' @ js ''No speech detected. Please try again.''"
| "recErrorText NotAllowed =
     js ''Voice recognition error. ''
       @ js ''Microphone access denied. Please allow microphone access.''"
| "recErrorText Network =
     js ''Voice recognition error. '' @ js ''Network error. Check your internet connection.''"
| "recErrorText OtherRecError = js ''Voice recognition error. '' @ js ''Please try again.''"

subsection \<open>addMessage and speak\<close>

definition newMessage :: "jsstring \<Rightarrow> sender \<Rightarrow> msgType \<Rightarrow> state \<Rightarrow> Message" where
  "newMessage txt sd ty s =
     \<lparr>msg_id = (clock s, messageCounter s + 1), msg_text = txt, msg_sender = sd,
      msg_timestamp = clock s, msg_type = ty\<rparr>"

definition addMessage :: "jsstring \<Rightarrow> sender \<Rightarrow> msgType \<Rightarrow> state \<Rightarrow> state" where
  "addMessage txt sd ty s =
     s\<lparr>messageCounter := messageCounter s + 1,
       messages := messages s @ [newMessage txt sd ty s],
       timers :=
         (if ty = StatusMsg
          then timers s @ [(clock s + 5000, RemoveStatus (msg_id (newMessage txt sd ty s)))]
          else timers s)\<rparr>"

definition synthCancel :: "state \<Rightarrow> state" where
  "synthCancel s =
     s\<lparr>synthQueue := [], synthSpeaking := False, synthCalls := synthCalls s @ [SynthCancel],
       synthCancelled := synthCancelled s + length (synthQueue s)\<rparr>"

definition cancelIfSpeaking :: "state \<Rightarrow> state" where
  "cancelIfSpeaking s = (if synthSpeaking s then synthCancel s else s)"

text \<open>
  The utterance is kept by its text; its rate, pitch and volume are the constants 0.85, 0.7
  and 1.0. Its three handlers are the utterance events of \<open>step\<close> below.
\<close>

definition speak :: "render \<Rightarrow> jsstring \<Rightarrow> state \<Rightarrow> state" where
  "speak r txt s =
     (if \<not> r_speechEnabled r \<or> txt = [] then s
      else (cancelIfSpeaking s)
             \<lparr>utteranceRef := Some txt,
              synthQueue := synthQueue (cancelIfSpeaking s) @ [txt],
              synthCalls := synthCalls (cancelIfSpeaking s) @ [SynthSpeak txt]\<rparr>)"

subsection \<open>sendMessage\<close>

text \<open>The \<^verbatim>\<open>catch\<close> block, followed by the final \<^verbatim>\<open>setIsProcessing(false)\<close>.\<close>

definition errorMessage :: "thrown \<Rightarrow> state \<Rightarrow> jsstring" where
  "errorMessage e s =
     (if e = AbortError then timedOutText
      else if \<not> navigatorOnLine s then offlineText
      else troubleText)"

definition sendMessage_catch :: "thrown \<Rightarrow> state \<Rightarrow> state" where
  "sendMessage_catch e s =
     (addMessage (crossMark @ js '' '' @ errorMessage e s) Bot ErrorMsg (s\<lparr>isTyping := False\<rparr>))
       \<lparr>isProcessing := False\<rparr>"

text \<open>
  The synchronous part, up to \<^verbatim>\<open>await fetch(...)\<close>. The timeout is registered before the URL
  is built, so it stays pending when \<^verbatim>\<open>encodeURIComponent\<close> throws.
\<close>

definition sendMessage :: "render \<Rightarrow> jsstring \<Rightarrow> state \<Rightarrow> state" where
  "sendMessage r txt s =
     (if blank txt \<or> r_isProcessing r then s
      else if \<not> r_connectionOnline r then addMessage noConnectionText Bot ErrorMsg s
      else
        let s1 = (addMessage txt User TextMsg (s\<lparr>isProcessing := True\<rparr>))\<lparr>isTyping := True\<rparr>;
            rid = nextRequest s1;
            s2 = s1\<lparr>nextRequest := rid + 1,
                    timers := timers s1 @ [(clock s1 + 15000, AbortFetch rid)]\<rparr>
        in if wellFormed txt
           then s2\<lparr>fetchLog := fetchLog s2 @ [txt],
                   inflight := inflight s2 @
                     [\<lparr>rq_id = rid, rq_question = txt, rq_render = r,
                       rq_phase = AwaitingFetch\<rparr>]\<rparr>
           else sendMessage_catch OtherError s2)"

definition dropRequest :: "nat \<Rightarrow> state \<Rightarrow> state" where
  "dropRequest rid s = s\<lparr>inflight := filter (\<lambda>q. rq_id q \<noteq> rid) (inflight s)\<rparr>"

definition clearTimeout :: "nat \<Rightarrow> state \<Rightarrow> state" where
  "clearTimeout rid s = s\<lparr>timers := filter (\<lambda>(d, a). a \<noteq> AbortFetch rid) (timers s)\<rparr>"

text \<open>\<^verbatim>\<open>fetch\<close> resolves with a response: the timeout is cleared, \<^verbatim>\<open>response.ok\<close> is tested.\<close>

definition sendMessage_response :: "request \<Rightarrow> bool \<Rightarrow> state \<Rightarrow> state" where
  "sendMessage_response q ok s =
     (if ok
      then (clearTimeout (rq_id q) s)
             \<lparr>inflight :=
                map (\<lambda>x. if rq_id x = rq_id q then x\<lparr>rq_phase := AwaitingJson\<rparr> else x)
                  (inflight s)\<rparr>
      else sendMessage_catch OtherError (dropRequest (rq_id q) (clearTimeout (rq_id q) s)))"

text \<open>An awaited promise rejects (network failure, or abort by the timeout).\<close>

definition sendMessage_rejected :: "request \<Rightarrow> thrown \<Rightarrow> state \<Rightarrow> state" where
  "sendMessage_rejected q e s = sendMessage_catch e (dropRequest (rq_id q) s)"

text \<open>\<^verbatim>\<open>data.answer || "I didn't receive a proper response."\<close>\<close>

definition answerText :: "jsstring option \<Rightarrow> jsstring" where
  "answerText a = (case a of None \<Rightarrow> fallbackAnswer | Some t \<Rightarrow> if t = [] then fallbackAnswer else t)"

text \<open>
  \<^verbatim>\<open>response.json()\<close> settles. \<open>JsonParsed a\<close> is a parsed body whose \<^verbatim>\<open>answer\<close> is the
  string \<open>a\<close>, \<open>None\<close> when the field is missing.
\<close>

definition sendMessage_json :: "request \<Rightarrow> jsonOutcome \<Rightarrow> state \<Rightarrow> state" where
  "sendMessage_json q out s =
     (case out of
        JsonFailed \<Rightarrow> sendMessage_catch OtherError (dropRequest (rq_id q) s)
      | JsonParsed a \<Rightarrow>
          (let s1 = addMessage (answerText a) Bot TextMsg
                      ((dropRequest (rq_id q) s)\<lparr>isTyping := False\<rparr>);
               s2 = (if r_speechEnabled (rq_render q)
                     then speak (rq_render q) (answerText a) s1 else s1)
           in s2\<lparr>isProcessing := False\<rparr>))"

definition handleSendText :: "state \<Rightarrow> state" where
  "handleSendText s =
     (if \<not> blank (inputText s)
      then (sendMessage (render_of s) (trim (inputText s)) s)\<lparr>inputText := []\<rparr>
      else s)"

subsection \<open>Recording\<close>

text \<open>
  \<^verbatim>\<open>recognition.start()\<close> throws when the recogniser is already started; this is the one
  failure of \<^verbatim>\<open>start\<close> that the model has.
\<close>

definition startRecording :: "state \<Rightarrow> state" where
  "startRecording s =
     (if \<not> recognitionSupported s then addMessage notSupportedText Bot ErrorMsg s
      else if isRecording s then s
      else
        let s1 = (cancelIfSpeaking s)\<lparr>isRecording := True, recHandlers := Some (render_of s)\<rparr>;
            s2 = s1\<lparr>recCalls := recCalls s1 @ [RecStart]\<rparr>
        in if recActive s
           then addMessage failedToStartText Bot ErrorMsg (s2\<lparr>isRecording := False\<rparr>)
           else s2\<lparr>recActive := True\<rparr>)"

text \<open>The three handlers assigned in \<^verbatim>\<open>startRecording\<close>, with the render \<open>r\<close> they captured.\<close>

definition onresult :: "render \<Rightarrow> jsstring \<Rightarrow> state \<Rightarrow> state" where
  "onresult r transcript s =
     (if r_currentMode r = Chat then s\<lparr>inputText := transcript\<rparr>
      else sendMessage r transcript (addMessage transcript User TextMsg s))
       \<lparr>isRecording := False\<rparr>"

definition onerror :: "recError \<Rightarrow> state \<Rightarrow> state" where
  "onerror e s = addMessage (recErrorText e) Bot ErrorMsg (s\<lparr>isRecording := False\<rparr>)"

definition onend :: "state \<Rightarrow> state" where
  "onend s = s\<lparr>isRecording := False\<rparr>"

definition stopIfRecording :: "state \<Rightarrow> state" where
  "stopIfRecording s =
     (if recognitionSupported s \<and> isRecording s then s\<lparr>recCalls := recCalls s @ [RecStop]\<rparr>
      else s)"

definition stopRecording :: "state \<Rightarrow> state" where
  "stopRecording s = (stopIfRecording s)\<lparr>isRecording := False\<rparr>"

definition toggleRecording :: "state \<Rightarrow> state" where
  "toggleRecording s = (if isRecording s then stopRecording s else startRecording s)"

definition toggleSpeaker :: "state \<Rightarrow> state" where
  "toggleSpeaker s =
     (if speechEnabled s \<and> synthSpeaking s then synthCancel s else s)
       \<lparr>speechEnabled := \<not> speechEnabled s\<rparr>"

subsection \<open>stopAll and switchMode\<close>

definition stopAll :: "state \<Rightarrow> state" where
  "stopAll s =
     (cancelIfSpeaking (stopIfRecording s))
       \<lparr>isRecording := False, isSpeaking := False, isProcessing := False, isTyping := False\<rparr>"

definition switchMode :: "ChatMode \<Rightarrow> state \<Rightarrow> state" where
  "switchMode mode s = (stopAll s)\<lparr>currentMode := mode\<rparr>"

subsection \<open>Keyboard shortcuts\<close>

datatype keyName = KeyEscape | KeyM | KeyS | Key1 | Key2 | Key3 | KeySpace | KeyOther

text \<open>\<open>inputFocused\<close> is \<^verbatim>\<open>document.activeElement?.tagName === "INPUT"\<close>.\<close>

record keyEvent =
  key :: keyName
  ctrlKey :: bool
  inputFocused :: bool

definition handleKeyDown :: "keyEvent \<Rightarrow> state \<Rightarrow> state" where
  "handleKeyDown e s =
     (if key e = KeyEscape then stopAll s
      else if ctrlKey e \<and> key e = KeyM
        then (if currentMode s = Chat then toggleRecording s else s)
      else if ctrlKey e \<and> key e = KeyS then toggleSpeaker s
      else if ctrlKey e \<and> key e = Key1 then switchMode Chat s
      else if ctrlKey e \<and> key e = Key2 then switchMode Voice s
      else if ctrlKey e \<and> key e = Key3 then switchMode VoiceCont s
      else if key e = KeySpace \<and> currentMode s = Voice \<and> \<not> inputFocused e
        then startRecording s
      else s)"

subsection \<open>The event loop\<close>

definition findRequest :: "nat \<Rightarrow> state \<Rightarrow> request option" where
  "findRequest rid s = find (\<lambda>q. rq_id q = rid) (inflight s)"

text \<open>
  A timeout fires. The callback of a status message filters the log by the id of that
  message. The callback of a request aborts it: the awaited promise rejects with an
  AbortError; aborting a request that has already settled does nothing.
\<close>

definition fire :: "timerAction \<Rightarrow> state \<Rightarrow> state" where
  "fire a s =
     (case a of
        RemoveStatus i \<Rightarrow> s\<lparr>messages := filter (\<lambda>m. msg_id m \<noteq> i) (messages s)\<rparr>
      | AbortFetch rid \<Rightarrow>
          (case findRequest rid s of
             None \<Rightarrow> s
           | Some q \<Rightarrow> sendMessage_rejected q AbortError s))"

fun fireAll :: "(nat \<times> timerAction) list \<Rightarrow> state \<Rightarrow> state" where
  "fireAll [] s = s"
| "fireAll ((t, a) # ds) s = fireAll ds (fire a (s\<lparr>clock := max (clock s) t\<rparr>))"

definition isDue :: "nat \<Rightarrow> nat \<times> timerAction \<Rightarrow> bool" where
  "isDue target ta \<longleftrightarrow> fst ta \<le> target"

text \<open>
  Time passes: \<open>d\<close> milliseconds. The timeouts that fall due fire in the order of their due
  times, those with equal due times in the order of their registration, each at its due
  time. No callback registers a timeout, so the due ones are known beforehand.
\<close>

definition advance :: "nat \<Rightarrow> state \<Rightarrow> state" where
  "advance d s =
     (fireAll (sort_key fst (filter (isDue (clock s + d)) (timers s)))
        (s\<lparr>timers := filter (\<lambda>ta. \<not> isDue (clock s + d) ta) (timers s)\<rparr>))
       \<lparr>clock := clock s + d\<rparr>"

text \<open>
  What can happen to the page. The controls of the input area exist in the modes that
  render them: the text input and the send button in chat mode, the microphone button in
  chat and voice mode. Events of the recogniser reach the handlers it was last given, while
  it is active; events of a request reach the suspended call that waits for them. The
  synthesiser starts the utterance at the head of its queue, ends it or fails on it, and
  tells each cancelled utterance that it is over; the handlers of the utterance set
  \<open>isSpeaking\<close>.
\<close>

datatype event =
    Change jsstring
  | ClickSend
  | ClickMic
  | ClickSpeaker
  | ClickStop
  | ClickMode ChatMode
  | KeyDown keyEvent
  | Online
  | Offline
  | RecResult jsstring
  | RecError recError
  | RecEnd
  | FetchResponse nat bool
  | FetchFailed nat
  | JsonSettled nat jsonOutcome
  | UtteranceStart
  | UtteranceEnd
  | UtteranceError
  | UtteranceCancelled
  | Advance nat

definition awaiting :: "nat \<Rightarrow> phase \<Rightarrow> state \<Rightarrow> request option" where
  "awaiting rid ph s =
     (case findRequest rid s of
        None \<Rightarrow> None
      | Some q \<Rightarrow> if rq_phase q = ph then Some q else None)"

fun step :: "event \<Rightarrow> state \<Rightarrow> state" where
  "step (Change t) s = (if currentMode s = Chat then s\<lparr>inputText := t\<rparr> else s)"
| "step ClickSend s = (if currentMode s = Chat then handleSendText s else s)"
| "step ClickMic s = (if currentMode s \<noteq> VoiceCont then toggleRecording s else s)"
| "step ClickSpeaker s = toggleSpeaker s"
| "step ClickStop s = stopAll s"
| "step (ClickMode m) s = switchMode m s"
| "step (KeyDown e) s = handleKeyDown e s"
| "step Online s = s\<lparr>connectionOnline := True, navigatorOnLine := True\<rparr>"
| "step Offline s = s\<lparr>connectionOnline := False, navigatorOnLine := False\<rparr>"
| "step (RecResult t) s =
     (case recHandlers s of
        None \<Rightarrow> s
      | Some r \<Rightarrow> if recActive s then onresult r t s else s)"
| "step (RecError e) s =
     (if recActive s \<and> recHandlers s \<noteq> None then onerror e s else s)"
| "step RecEnd s =
     (if recActive s then (if recHandlers s \<noteq> None then onend s else s)\<lparr>recActive := False\<rparr>
      else s)"
| "step (FetchResponse rid ok) s =
     (case awaiting rid AwaitingFetch s of
        None \<Rightarrow> s
      | Some q \<Rightarrow> sendMessage_response q ok s)"
| "step (FetchFailed rid) s =
     (case awaiting rid AwaitingFetch s of
        None \<Rightarrow> s
      | Some q \<Rightarrow> sendMessage_rejected q OtherError s)"
| "step (JsonSettled rid out) s =
     (case awaiting rid AwaitingJson s of
        None \<Rightarrow> s
      | Some q \<Rightarrow> sendMessage_json q out s)"
| "step UtteranceStart s =
     (if synthQueue s \<noteq> [] \<and> \<not> synthSpeaking s
      then s\<lparr>synthSpeaking := True, isSpeaking := True\<rparr> else s)"
| "step UtteranceEnd s =
     (if synthSpeaking s
      then s\<lparr>synthSpeaking := False, synthQueue := tl (synthQueue s), isSpeaking := False\<rparr>
      else s)"
| "step UtteranceError s =
     (if synthQueue s \<noteq> []
      then s\<lparr>synthSpeaking := False, synthQueue := tl (synthQueue s), isSpeaking := False\<rparr>
      else s)"
| "step UtteranceCancelled s =
     (if 0 < synthCancelled s
      then s\<lparr>synthCancelled := synthCancelled s - 1, isSpeaking := False\<rparr>
      else s)"
| "step (Advance d) s = advance d s"

definition run :: "event list \<Rightarrow> state \<Rightarrow> state" where
  "run es s = foldl (\<lambda>s e. step e s) s es"

subsection \<open>Events that leave a request alone\<close>

text \<open>
  An event is quiet for the request \<open>rid\<close> when it is no outcome of that request: no
  response, failure or parsed body for it, and no passing of time that makes a timeout
  of it fall due. A history is quiet when each of its events is, in the state it meets.
\<close>

definition quiet :: "nat \<Rightarrow> state \<Rightarrow> event \<Rightarrow> bool" where
  "quiet rid s e =
     (case e of
        FetchResponse i ok \<Rightarrow> i \<noteq> rid
      | FetchFailed i \<Rightarrow> i \<noteq> rid
      | JsonSettled i out \<Rightarrow> i \<noteq> rid
      | Advance d \<Rightarrow>
          list_all (\<lambda>ta. isDue (clock s + d) ta \<longrightarrow> snd ta \<noteq> AbortFetch rid) (timers s)
      | _ \<Rightarrow> True)"

fun quietRun :: "nat \<Rightarrow> event list \<Rightarrow> state \<Rightarrow> bool" where
  "quietRun rid [] s = True"
| "quietRun rid (e # es) s = (quiet rid s e \<and> quietRun rid es (step e s))"

subsection \<open>Callers of addMessage\<close>

text \<open>
  The page itself never passes \<^verbatim>\<open>"status"\<close> to \<open>addMessage\<close>. To speak about the
  lifetime of every message that \<open>addMessage\<close> can create, the histories below mix the
  events of the page with calls of \<open>addMessage\<close> of any kind.
\<close>

datatype action = Event event | AddMessage jsstring sender msgType

fun perform :: "action \<Rightarrow> state \<Rightarrow> state" where
  "perform (Event e) s = step e s"
| "perform (AddMessage txt sd ty) s = addMessage txt sd ty s"

definition exec :: "action list \<Rightarrow> state \<Rightarrow> state" where
  "exec acts s = foldl (\<lambda>s a. perform a s) s acts"

subsection \<open>Invariant of the log and the timeouts\<close>

definition isRemoval :: "timerAction \<Rightarrow> bool" where
  "isRemoval a = (case a of RemoveStatus i \<Rightarrow> True | AbortFetch rid \<Rightarrow> False)"

text \<open>
  A pending removal belongs to an id that the counter has already passed, is due 5000 ms
  after the time in that id, and every message with that id is a status message.
\<close>

definition removalOk :: "state \<Rightarrow> nat \<times> timerAction \<Rightarrow> bool" where
  "removalOk s ta =
     (case snd ta of
        AbortFetch rid \<Rightarrow> True
      | RemoveStatus i \<Rightarrow>
          snd i \<le> messageCounter s \<and> fst ta = fst i + 5000 \<and>
          (\<forall>m\<in>set (messages s). msg_id m = i \<longrightarrow> msg_type m = StatusMsg))"

text \<open>
  The ids in the log are not beyond the counter, every pending timeout is in the future,
  and every status message in the log has its removal pending.
\<close>

definition logInv :: "state \<Rightarrow> bool" where
  "logInv s \<longleftrightarrow>
     (\<forall>m\<in>set (messages s). snd (msg_id m) \<le> messageCounter s) \<and>
     (\<forall>ta\<in>set (timers s). clock s < fst ta \<and> removalOk s ta) \<and>
     (\<forall>m\<in>set (messages s). msg_type m = StatusMsg \<longrightarrow>
        (fst (msg_id m) + 5000, RemoveStatus (msg_id m)) \<in> set (timers s))"

text \<open>Messages created between \<open>s\<close> and \<open>s'\<close>, none of them a status message.\<close>

definition fresh :: "state \<Rightarrow> state \<Rightarrow> Message list \<Rightarrow> bool" where
  "fresh s s' new \<longleftrightarrow>
     (\<forall>m\<in>set new. messageCounter s < snd (msg_id m) \<and> snd (msg_id m) \<le> messageCounter s' \<and>
        msg_type m \<noteq> StatusMsg)"

text \<open>
  What every event other than the passing of time does to the log and the timeouts: the
  clock stands still, the log grows at its end by fresh messages, removals stay pending,
  and the only new timeouts are aborts of requests.
\<close>

definition appends :: "state \<Rightarrow> state \<Rightarrow> bool" where
  "appends s s' \<longleftrightarrow>
     clock s' = clock s \<and> messageCounter s \<le> messageCounter s' \<and>
     take (length (messages s)) (messages s') = messages s \<and>
     fresh s s' (drop (length (messages s)) (messages s')) \<and>
     (\<forall>ta\<in>set (timers s'). ta \<in> set (timers s) \<or> (clock s < fst ta \<and> \<not> isRemoval (snd ta))) \<and>
     (\<forall>ta\<in>set (timers s). isRemoval (snd ta) \<longrightarrow> ta \<in> set (timers s'))"

text \<open>No timeout of \<open>ds\<close> removes the message \<open>m\<close>.\<close>

definition spared :: "(nat \<times> timerAction) list \<Rightarrow> Message \<Rightarrow> bool" where
  "spared ds m \<longleftrightarrow> (\<forall>ta\<in>set ds. snd ta \<noteq> RemoveStatus (msg_id m))"

definition known :: "state \<Rightarrow> nat \<times> timerAction \<Rightarrow> bool" where
  "known s ta =
     (case snd ta of RemoveStatus i \<Rightarrow> snd i \<le> messageCounter s | AbortFetch rid \<Rightarrow> True)"

text \<open>
  The message \<open>m\<close> has been created, and it is in the log exactly if it is no status
  message or its 5000 ms have not passed.
\<close>

definition tracked :: "Message \<Rightarrow> state \<Rightarrow> bool" where
  "tracked m s \<longleftrightarrow>
     logInv s \<and> snd (msg_id m) \<le> messageCounter s \<and>
     (m \<in> set (messages s) \<longleftrightarrow>
        (msg_type m = StatusMsg \<longrightarrow> clock s < fst (msg_id m) + 5000))"

subsection \<open>Example runs\<close>

text \<open>
  Concrete states of the page, each reached from the initial state of a browser that
  supports speech recognition and is online.
\<close>

definition afterSend :: state where
  "afterSend = run [Change (js ''hi''), ClickSend, Change (js ''more'')] (init True True)"

definition offlineTyped :: state where
  "offlineTyped = run [Offline, Change (js ''hi'')] (init True True)"

definition listeningChat :: state where
  "listeningChat = run [ClickMic] (init True True)"

definition listeningVoice :: state where
  "listeningVoice = run [ClickMode Voice, ClickMic] (init True True)"

definition listeningVoiceOffline :: state where
  "listeningVoiceOffline = run [Offline, ClickMode Voice, ClickMic] (init True True)"

definition stoppedInFlight :: state where
  "stoppedInFlight = run [Change (js ''hi''), ClickSend, ClickStop] (init True True)"

definition staleListening :: state where
  "staleListening =
     run [ClickMode Voice, ClickMic, ClickMode Chat, Change (js ''hi''), ClickSend]
       (init True True)"

definition listeningThenOffline :: state where
  "listeningThenOffline = run [ClickMode Voice, ClickMic, Offline] (init True True)"

definition stoppedTyped :: state where
  "stoppedTyped =
     run [Change (js ''hi''), ClickSend, ClickStop, Change (js ''more'')] (init True True)"

definition twoInFlight :: state where
  "twoInFlight =
     run [Change (js ''a''), ClickSend, FetchResponse 0 True, ClickStop,
          Change (js ''b''), ClickSend, FetchResponse 1 True] (init True True)"

definition speakingNow :: state where
  "speakingNow =
     run [Change (js ''hi''), ClickSend, FetchResponse 0 True,
          JsonSettled 0 (JsonParsed (Some (js ''yo''))), UtteranceStart] (init True True)"

section \<open>Properties\<close>

lemmas string_defs = js_def crossMark_def blank_def trim_def isWhiteSpace_def

lemmas message_defs = addMessage_def newMessage_def

lemmas send_defs = sendMessage_def sendMessage_catch_def errorMessage_def
  sendMessage_response_def sendMessage_rejected_def sendMessage_json_def dropRequest_def
  clearTimeout_def answerText_def handleSendText_def render_of_def

lemmas synth_defs = synthCancel_def cancelIfSpeaking_def speak_def

lemmas rec_defs = startRecording_def stopRecording_def stopIfRecording_def
  toggleRecording_def onresult_def onerror_def onend_def

lemmas loop_defs = run_def init_def findRequest_def awaiting_def fire_def advance_def isDue_def

lemmas ctl_defs = stopAll_def switchMode_def toggleSpeaker_def handleKeyDown_def

subsection \<open>Trimming\<close>

lemma dropWhile_keeps: "xs = [] \<or> \<not> P (hd xs) \<Longrightarrow> dropWhile P xs = xs"
  by (cases xs) auto

lemma last_dropWhile_same: "dropWhile P xs \<noteq> [] \<Longrightarrow> last (dropWhile P xs) = last xs"
  by (induction xs) (auto split: if_splits)

lemma trim_trim: "trim (trim t) = trim t"
proof -
  define a where "a = dropWhile isWhiteSpace t"
  define b where "b = dropWhile isWhiteSpace (rev a)"
  have hb: "b = [] \<or> \<not> isWhiteSpace (hd b)"
    unfolding b_def using hd_dropWhile [of isWhiteSpace "rev a"] by blast
  have lb: "b = [] \<or> \<not> isWhiteSpace (last b)"
  proof (cases "b = []")
    case True
    then show ?thesis by simp
  next
    case False
    then have "last b = last (rev a)"
      unfolding b_def by (rule last_dropWhile_same)
    moreover from False have "a \<noteq> []"
      unfolding b_def by auto
    ultimately have "last b = hd a"
      by (simp add: last_rev)
    moreover from \<open>a \<noteq> []\<close> have "\<not> isWhiteSpace (hd a)"
      unfolding a_def by (rule hd_dropWhile)
    ultimately show ?thesis by simp
  qed
  from lb have "dropWhile isWhiteSpace (rev b) = rev b"
    by (intro dropWhile_keeps) (auto simp: hd_rev)
  moreover from hb have "dropWhile isWhiteSpace b = b"
    by (rule dropWhile_keeps)
  ultimately show ?thesis
    unfolding trim_def a_def [symmetric] b_def [symmetric] by simp
qed

lemma blank_trim: "blank (trim t) = blank t"
  by (simp add: blank_def trim_trim)

subsection \<open>Mode switches\<close>

lemma switchMode_flags:
  "isRecording (switchMode m s) = False \<and> isSpeaking (switchMode m s) = False \<and>
   isProcessing (switchMode m s) = False \<and> isTyping (switchMode m s) = False \<and>
   currentMode (switchMode m s) = m"
  by (simp add: switchMode_def stopAll_def)

text \<open>
  Claim C3. After every call of a sequence of \<open>switchMode\<close> calls, started in any state at
  all, \<open>isRecording\<close>, \<open>isSpeaking\<close> and \<open>isProcessing\<close> are false and the mode is the
  one that the call asked for. The sequence is \<open>ms @ [m]\<close>, so the statement holds after
  each call of a longer sequence, which is the last call of a prefix.
\<close>

theorem switchMode_quiesces:
  "\<not> isRecording (foldl (\<lambda>s m. switchMode m s) s (ms @ [m])) \<and>
   \<not> isSpeaking (foldl (\<lambda>s m. switchMode m s) s (ms @ [m])) \<and>
   \<not> isProcessing (foldl (\<lambda>s m. switchMode m s) s (ms @ [m])) \<and>
   currentMode (foldl (\<lambda>s m. switchMode m s) s (ms @ [m])) = m"
  by (simp add: switchMode_flags)

subsection \<open>The guards of sendMessage\<close>

text \<open>
  The guard itself: a call of \<open>sendMessage\<close> with blank text, or in a render whose
  \<open>isProcessing\<close> is true, returns at its first line and changes nothing.
\<close>

lemma sendMessage_guard: "blank txt \<or> r_isProcessing r \<Longrightarrow> sendMessage r txt s = s"
  by (auto simp add: sendMessage_def)

text \<open>
  Claim C4 says that a call of \<open>sendMessage\<close> while \<open>isProcessing\<close> is true changes
  neither the log nor the requests. The page breaks it on one path. The handlers that
  \<open>startRecording\<close> assigns keep the \<open>sendMessage\<close> of the render in which recording
  started. Recording starts in voice mode, the user switches to text chat and sends
  \<^verbatim>\<open>hi\<close>, so \<open>isProcessing\<close> is true; then the recogniser delivers the transcript
  \<^verbatim>\<open>yo\<close>. The old \<open>sendMessage\<close> reads \<open>isProcessing\<close> as false: the log gains two
  messages and a second request is issued while the first is in flight.
\<close>

theorem stale_guard_dispatches:
  "isProcessing staleListening \<and> fetchLog staleListening = [js ''hi''] \<and>
   map msg_text (messages staleListening) = [js ''hi''] \<and>
   fetchLog (step (RecResult (js ''yo'')) staleListening) = [js ''hi'', js ''yo''] \<and>
   length (inflight (step (RecResult (js ''yo'')) staleListening)) = 2 \<and>
   map msg_text (messages (step (RecResult (js ''yo'')) staleListening)) =
     [js ''hi'', js ''yo'', js ''yo'']"
  by (simp add: staleListening_def loop_defs send_defs string_defs message_defs synth_defs
      ctl_defs rec_defs Let_def)

text \<open>
  Claim C6 does not hold. The gate is the flag \<open>isProcessing\<close>, not the existence of a
  request: after \<open>stopAll\<close> a request is still in flight, the flag is false, and a submit
  is logged and dispatched. And a call from a recognition handler reads the flags of the
  render in which recording started: when the connection is lost after that, the
  transcript is dispatched and no offline error is logged.
\<close>

theorem sendMessage_rejections_counterexample:
  "inflight stoppedTyped \<noteq> [] \<and> \<not> blank (inputText stoppedTyped) \<and>
   length (messages stoppedTyped) = 1 \<and>
   length (messages (step ClickSend stoppedTyped)) = 2 \<and>
   fetchLog (step ClickSend stoppedTyped) = [js ''hi'', js ''more''] \<and>
   \<not> connectionOnline listeningThenOffline \<and> \<not> isProcessing listeningThenOffline \<and>
   inflight listeningThenOffline = [] \<and>
   fetchLog (step (RecResult (js ''hello'')) listeningThenOffline) = [js ''hello''] \<and>
   map msg_type (messages (step (RecResult (js ''hello'')) listeningThenOffline)) =
     [TextMsg, TextMsg]"
  by (simp add: stoppedTyped_def listeningThenOffline_def loop_defs send_defs string_defs
      message_defs synth_defs ctl_defs rec_defs Let_def)

text \<open>
  Claim C6, as amended. Take a call of \<open>sendMessage\<close> that reads the current flags, as
  every text submit does. With text that is not blank, while \<open>isProcessing\<close> is false and
  \<open>connectionOnline\<close> is false, it issues no request and appends exactly one message to the
  log: the error message of the bot that says there is no internet connection. While
  \<open>isProcessing\<close> is true it changes nothing, and a call with blank text changes nothing
  whatever flags it reads. The same holds of \<open>handleSendText\<close>, stated on the state alone.
\<close>

theorem sendMessage_rejections:
  "(blank txt \<longrightarrow> sendMessage r txt s = s) \<and>
   (r_isProcessing r = isProcessing s \<and> r_connectionOnline r = connectionOnline s \<longrightarrow>
      (isProcessing s \<longrightarrow> sendMessage r txt s = s) \<and>
      (\<not> blank txt \<and> \<not> isProcessing s \<and> \<not> connectionOnline s \<longrightarrow>
         messages (sendMessage r txt s) =
           messages s @
             [\<lparr>msg_id = (clock s, messageCounter s + 1), msg_text = noConnectionText,
               msg_sender = Bot, msg_timestamp = clock s, msg_type = ErrorMsg\<rparr>] \<and>
         fetchLog (sendMessage r txt s) = fetchLog s \<and>
         inflight (sendMessage r txt s) = inflight s)) \<and>
   (blank (inputText s) \<or> isProcessing s \<longrightarrow>
      messages (handleSendText s) = messages s \<and>
      fetchLog (handleSendText s) = fetchLog s \<and>
      inflight (handleSendText s) = inflight s) \<and>
   (\<not> blank (inputText s) \<and> \<not> isProcessing s \<and> \<not> connectionOnline s \<longrightarrow>
      messages (handleSendText s) =
        messages s @
          [\<lparr>msg_id = (clock s, messageCounter s + 1), msg_text = noConnectionText,
            msg_sender = Bot, msg_timestamp = clock s, msg_type = ErrorMsg\<rparr>] \<and>
      fetchLog (handleSendText s) = fetchLog s \<and>
      inflight (handleSendText s) = inflight s)"
  by (auto simp add: sendMessage_def handleSendText_def render_of_def addMessage_def
      newMessage_def blank_trim)

theorem sendMessage_rejections_witness:
  "\<not> blank (js ''hi'') \<and> \<not> isProcessing offlineTyped \<and> \<not> connectionOnline offlineTyped \<and>
   r_isProcessing (render_of offlineTyped) = isProcessing offlineTyped \<and>
   r_connectionOnline (render_of offlineTyped) = connectionOnline offlineTyped \<and>
   messages (sendMessage (render_of offlineTyped) (js ''hi'') offlineTyped) =
     [\<lparr>msg_id = (0, 1), msg_text = noConnectionText, msg_sender = Bot, msg_timestamp = 0,
       msg_type = ErrorMsg\<rparr>] \<and>
   fetchLog (sendMessage (render_of offlineTyped) (js ''hi'') offlineTyped) = [] \<and>
   messages (handleSendText offlineTyped) =
     [\<lparr>msg_id = (0, 1), msg_text = noConnectionText, msg_sender = Bot, msg_timestamp = 0,
       msg_type = ErrorMsg\<rparr>] \<and>
   blank (js ''  '') \<and>
   sendMessage (render_of offlineTyped) (js ''  '') offlineTyped = offlineTyped \<and>
   isProcessing afterSend \<and>
   sendMessage (render_of afterSend) (js ''more'') afterSend = afterSend \<and>
   messages (handleSendText afterSend) = messages afterSend \<and>
   fetchLog (handleSendText afterSend) = [js ''hi'']"
  using sendMessage_rejections [of "js ''hi''" "render_of offlineTyped" offlineTyped]
    sendMessage_rejections [of "js ''  ''" "render_of offlineTyped" offlineTyped]
    sendMessage_rejections [of "js ''more''" "render_of afterSend" afterSend]
  by (simp add: offlineTyped_def afterSend_def loop_defs send_defs string_defs message_defs
      Let_def)

text \<open>
  Claim C10. When the input is not blank, \<open>handleSendText\<close> always leaves the input buffer
  empty. That is so also when \<open>sendMessage\<close> rejects the text: while processing, nothing
  is logged and nothing is sent; while offline, nothing is sent and the only message
  logged is the fixed error text, not the typed text.
\<close>

theorem handleSendText_clears_input:
  "\<not> blank (inputText s) \<Longrightarrow>
   inputText (handleSendText s) = [] \<and>
   (isProcessing s \<longrightarrow>
      messages (handleSendText s) = messages s \<and> fetchLog (handleSendText s) = fetchLog s) \<and>
   (\<not> isProcessing s \<and> \<not> connectionOnline s \<longrightarrow>
      messages (handleSendText s) =
        messages s @
          [\<lparr>msg_id = (clock s, messageCounter s + 1), msg_text = noConnectionText,
            msg_sender = Bot, msg_timestamp = clock s, msg_type = ErrorMsg\<rparr>] \<and>
      fetchLog (handleSendText s) = fetchLog s)"
  by (simp add: handleSendText_def sendMessage_def render_of_def addMessage_def
      newMessage_def blank_trim)

theorem handleSendText_clears_input_witness:
  "\<not> blank (inputText afterSend) \<and> isProcessing afterSend \<and>
   inputText afterSend = js ''more'' \<and>
   inputText (handleSendText afterSend) = [] \<and>
   messages (handleSendText afterSend) = messages afterSend \<and>
   fetchLog (handleSendText afterSend) = fetchLog afterSend \<and>
   \<not> blank (inputText offlineTyped) \<and> \<not> isProcessing offlineTyped \<and>
   \<not> connectionOnline offlineTyped \<and>
   inputText (handleSendText offlineTyped) = [] \<and>
   fetchLog (handleSendText offlineTyped) = [] \<and>
   map msg_text (messages (handleSendText offlineTyped)) = [noConnectionText]"
  using handleSendText_clears_input [of afterSend] handleSendText_clears_input [of offlineTyped]
  by (simp add: afterSend_def offlineTyped_def loop_defs send_defs string_defs message_defs
      Let_def)

subsection \<open>Transcripts\<close>

text \<open>
  Claim C8. When the recogniser delivers a transcript to handlers that were assigned in
  text-chat mode, no message is appended to the log, no request is issued, and the input
  buffer becomes the transcript.
\<close>

theorem transcript_in_chat_mode:
  "recActive s \<Longrightarrow> recHandlers s = Some r \<Longrightarrow> r_currentMode r = Chat \<Longrightarrow>
   messages (step (RecResult t) s) = messages s \<and>
   fetchLog (step (RecResult t) s) = fetchLog s \<and>
   inflight (step (RecResult t) s) = inflight s \<and>
   inputText (step (RecResult t) s) = t"
  by (simp add: onresult_def)

theorem transcript_in_chat_mode_witness:
  "recActive listeningChat \<and> recHandlers listeningChat = Some (render_of (init True True)) \<and>
   r_currentMode (render_of (init True True)) = Chat \<and>
   messages (step (RecResult (js ''hello'')) listeningChat) = [] \<and>
   fetchLog (step (RecResult (js ''hello'')) listeningChat) = [] \<and>
   inflight (step (RecResult (js ''hello'')) listeningChat) = [] \<and>
   inputText (step (RecResult (js ''hello'')) listeningChat) = js ''hello''"
  using transcript_in_chat_mode [of listeningChat "render_of (init True True)" "js ''hello''"]
  by (simp add: listeningChat_def loop_defs rec_defs synth_defs render_of_def)

subsection \<open>Speech output\<close>

text \<open>
  Claim C9 does not hold as a whole: its conclusion, that at most one utterance is ever
  active, fails. \<open>speak\<close> cancels only when the synthesiser reports that it is speaking,
  and an utterance that is queued and has not started is not reported. Two answers that
  arrive one after the other, before the first utterance has started, are both queued and
  nothing is cancelled.
\<close>

theorem speak_queue_counterexample:
  "\<not> synthSpeaking twoInFlight \<and> synthQueue twoInFlight = [] \<and>
   synthQueue
     (run [JsonSettled 0 (JsonParsed (Some (js ''one''))),
           JsonSettled 1 (JsonParsed (Some (js ''two'')))] twoInFlight) =
     [js ''one'', js ''two''] \<and>
   synthCalls
     (run [JsonSettled 0 (JsonParsed (Some (js ''one''))),
           JsonSettled 1 (JsonParsed (Some (js ''two'')))] twoInFlight) =
     [SynthSpeak (js ''one''), SynthSpeak (js ''two'')]"
  by (simp add: twoInFlight_def loop_defs send_defs string_defs message_defs synth_defs
      ctl_defs stopIfRecording_def Let_def)

text \<open>
  Claim C9, as amended. \<open>speak\<close> with the empty text changes nothing. When the synthesiser
  reports that it is speaking, \<open>speak\<close> (with speech enabled and a text that is not empty)
  first calls \<^verbatim>\<open>cancel\<close> and then \<^verbatim>\<open>speak\<close>, and after the call the new utterance is
  the only one that the synthesiser holds: the earlier one is preempted, the new one is
  not queued behind it.
\<close>

theorem speak_preempts:
  "speak r [] s = s \<and>
   (r_speechEnabled r \<and> txt \<noteq> [] \<and> synthSpeaking s \<longrightarrow>
      synthCalls (speak r txt s) = synthCalls s @ [SynthCancel, SynthSpeak txt] \<and>
      synthQueue (speak r txt s) = [txt])"
  by (simp add: speak_def cancelIfSpeaking_def synthCancel_def)

theorem speak_preempts_witness:
  "r_speechEnabled (render_of speakingNow) \<and> js ''next'' \<noteq> [] \<and> synthSpeaking speakingNow \<and>
   synthQueue speakingNow = [js ''yo''] \<and>
   synthCalls (speak (render_of speakingNow) (js ''next'') speakingNow) =
     [SynthSpeak (js ''yo''), SynthCancel, SynthSpeak (js ''next'')] \<and>
   synthQueue (speak (render_of speakingNow) (js ''next'') speakingNow) = [js ''next'']"
  using speak_preempts [of "render_of speakingNow" speakingNow "js ''next''"]
  by (simp add: speakingNow_def loop_defs send_defs string_defs message_defs synth_defs Let_def)

subsection \<open>Timeout of a request\<close>

lemma find_snoc: "P x \<Longrightarrow> find P (xs @ [x]) \<noteq> None"
  by (auto simp add: find_None_iff)

lemma fire_abort:
  "findRequest rid s = Some q \<Longrightarrow>
   fire (AbortFetch rid) s = sendMessage_catch AbortError (dropRequest rid s)"
  by (auto simp add: fire_def sendMessage_rejected_def findRequest_def dest: find_Some_iff [THEN iffD1])

text \<open>
  Claim C5. The timeout of a request in flight appends exactly one message to the log, the
  error message of the bot that says the request timed out, sets \<open>isTyping\<close> and
  \<open>isProcessing\<close> to false and makes no call to the synthesiser; no answer of the
  assistant is appended. The timeout is due 15000 ms after the dispatch: when nothing else
  is pending and no response arrives, the log is as the dispatch left it at every time
  before that, and has gained the one error message from then on.
\<close>

theorem dispatch_timeout:
  "(findRequest rid s = Some q \<longrightarrow>
      messages (fire (AbortFetch rid) s) =
        messages s @
          [\<lparr>msg_id = (clock s, messageCounter s + 1),
            msg_text = crossMark @ js '' '' @ timedOutText,
            msg_sender = Bot, msg_timestamp = clock s, msg_type = ErrorMsg\<rparr>] \<and>
      \<not> isTyping (fire (AbortFetch rid) s) \<and>
      \<not> isProcessing (fire (AbortFetch rid) s) \<and>
      synthCalls (fire (AbortFetch rid) s) = synthCalls s) \<and>
   (timers s = [] \<and> \<not> blank txt \<and> wellFormed txt \<and> \<not> r_isProcessing r \<and>
    r_connectionOnline r \<longrightarrow>
      fetchLog (sendMessage r txt s) = fetchLog s @ [txt] \<and>
      (d < 15000 \<longrightarrow>
         messages (advance d (sendMessage r txt s)) = messages (sendMessage r txt s) \<and>
         isTyping (advance d (sendMessage r txt s))) \<and>
      (15000 \<le> d \<longrightarrow>
         messages (advance d (sendMessage r txt s)) =
           messages (sendMessage r txt s) @
             [\<lparr>msg_id = (clock s + 15000, messageCounter s + 2),
               msg_text = crossMark @ js '' '' @ timedOutText,
               msg_sender = Bot, msg_timestamp = clock s + 15000, msg_type = ErrorMsg\<rparr>] \<and>
         \<not> isTyping (advance d (sendMessage r txt s)) \<and>
         \<not> isProcessing (advance d (sendMessage r txt s)) \<and>
         synthCalls (advance d (sendMessage r txt s)) = synthCalls s))"
proof -
  have a: "findRequest rid s = Some q \<longrightarrow>
      messages (fire (AbortFetch rid) s) =
        messages s @
          [\<lparr>msg_id = (clock s, messageCounter s + 1),
            msg_text = crossMark @ js '' '' @ timedOutText,
            msg_sender = Bot, msg_timestamp = clock s, msg_type = ErrorMsg\<rparr>] \<and>
      \<not> isTyping (fire (AbortFetch rid) s) \<and>
      \<not> isProcessing (fire (AbortFetch rid) s) \<and>
      synthCalls (fire (AbortFetch rid) s) = synthCalls s"
    by (simp add: fire_abort sendMessage_catch_def dropRequest_def errorMessage_def
        addMessage_def newMessage_def)
  have b: "timers s = [] \<and> \<not> blank txt \<and> wellFormed txt \<and> \<not> r_isProcessing r \<and>
    r_connectionOnline r \<longrightarrow>
      fetchLog (sendMessage r txt s) = fetchLog s @ [txt] \<and>
      (d < 15000 \<longrightarrow>
         messages (advance d (sendMessage r txt s)) = messages (sendMessage r txt s) \<and>
         isTyping (advance d (sendMessage r txt s))) \<and>
      (15000 \<le> d \<longrightarrow>
         messages (advance d (sendMessage r txt s)) =
           messages (sendMessage r txt s) @
             [\<lparr>msg_id = (clock s + 15000, messageCounter s + 2),
               msg_text = crossMark @ js '' '' @ timedOutText,
               msg_sender = Bot, msg_timestamp = clock s + 15000, msg_type = ErrorMsg\<rparr>] \<and>
         \<not> isTyping (advance d (sendMessage r txt s)) \<and>
         \<not> isProcessing (advance d (sendMessage r txt s)) \<and>
         synthCalls (advance d (sendMessage r txt s)) = synthCalls s)"
    by (auto simp add: sendMessage_def Let_def advance_def isDue_def addMessage_def
        newMessage_def fire_def findRequest_def sendMessage_rejected_def sendMessage_catch_def
        dropRequest_def errorMessage_def
        split: option.splits dest: find_snoc [THEN notE, rotated])
  from a b show ?thesis by blast
qed

theorem dispatch_timeout_witness:
  "findRequest 0 (run [Change (js ''hi''), ClickSend] (init True True)) \<noteq> None \<and>
   map msg_type (messages (run [Change (js ''hi''), ClickSend, Advance 14999] (init True True)))
     = [TextMsg] \<and>
   isTyping (run [Change (js ''hi''), ClickSend, Advance 14999] (init True True)) \<and>
   messages (run [Change (js ''hi''), ClickSend, Advance 15000] (init True True)) =
     [\<lparr>msg_id = (0, 1), msg_text = js ''hi'', msg_sender = User, msg_timestamp = 0,
       msg_type = TextMsg\<rparr>,
      \<lparr>msg_id = (15000, 2), msg_text = crossMark @ js '' '' @ timedOutText,
       msg_sender = Bot, msg_timestamp = 15000, msg_type = ErrorMsg\<rparr>] \<and>
   \<not> isTyping (run [Change (js ''hi''), ClickSend, Advance 15000] (init True True)) \<and>
   synthCalls (run [Change (js ''hi''), ClickSend, Advance 15000] (init True True)) = []"
  using dispatch_timeout [of 0 "run [Change (js ''hi''), ClickSend] (init True True)" _
      "js ''hi''" "render_of (init True True)" 14999]
    dispatch_timeout [of 0 "run [Change (js ''hi''), ClickSend] (init True True)" _
      "js ''hi''" "render_of (init True True)" 15000]
  by (simp add: loop_defs send_defs string_defs message_defs Let_def timedOutText_def)

subsection \<open>Responses after stopAll\<close>

lemma find_map_phase:
  "find (\<lambda>x. rq_id x = rid) xs = Some q \<Longrightarrow>
   find (\<lambda>x. rq_id x = rid)
     (map (\<lambda>x. if rq_id x = rid then x\<lparr>rq_phase := ph\<rparr> else x) xs) = Some (q\<lparr>rq_phase := ph\<rparr>)"
  by (induction xs) (auto split: if_splits)

lemma awaiting_stopAll: "awaiting rid ph (stopAll s) = awaiting rid ph s"
  by (simp add: awaiting_def findRequest_def stopAll_def cancelIfSpeaking_def synthCancel_def
      stopIfRecording_def)

lemma stopAll_log:
  "messages (stopAll s) = messages s \<and> messageCounter (stopAll s) = messageCounter s \<and>
   clock (stopAll s) = clock s \<and> navigatorOnLine (stopAll s) = navigatorOnLine s \<and>
   inflight (stopAll s) = inflight s \<and> timers (stopAll s) = timers s \<and>
   fetchLog (stopAll s) = fetchLog s"
  by (simp add: stopAll_def cancelIfSpeaking_def synthCancel_def stopIfRecording_def)

text \<open>
  Claim C1 does not hold: the page has no sequence numbers, and the continuation of
  \<open>sendMessage\<close> tests no flag. After a send and a stop, with the request still in
  flight, the response that arrives is appended to the log.
\<close>

theorem stale_response_counterexample:
  "inflight stoppedInFlight \<noteq> [] \<and> \<not> isTyping stoppedInFlight \<and>
   \<not> isProcessing stoppedInFlight \<and>
   length (messages stoppedInFlight) = 1 \<and>
   messages (run [FetchResponse 0 True, JsonSettled 0 (JsonParsed (Some (js ''yo'')))]
       stoppedInFlight) =
     messages stoppedInFlight @
       [\<lparr>msg_id = (0, 2), msg_text = js ''yo'', msg_sender = Bot, msg_timestamp = 0,
         msg_type = TextMsg\<rparr>]"
  by (simp add: stoppedInFlight_def loop_defs send_defs string_defs message_defs synth_defs
      ctl_defs stopIfRecording_def Let_def)

lemma response_ok_awaiting:
  "awaiting rid AwaitingFetch s = Some q \<Longrightarrow>
   awaiting rid AwaitingJson (sendMessage_response q True s) = Some (q\<lparr>rq_phase := AwaitingJson\<rparr>)"
proof -
  assume a: "awaiting rid AwaitingFetch s = Some q"
  then have f: "find (\<lambda>x. rq_id x = rid) (inflight s) = Some q" and i: "rq_id q = rid"
    by (auto simp add: awaiting_def findRequest_def find_Some_iff split: option.splits if_splits)
  from find_map_phase [OF f, of AwaitingJson] i show ?thesis
    by (simp add: awaiting_def findRequest_def sendMessage_response_def clearTimeout_def)
qed

subsection \<open>Requests stay in flight\<close>

lemma awaiting_iff:
  "awaiting rid ph s = Some q \<longleftrightarrow> findRequest rid s = Some q \<and> rq_phase q = ph"
  by (auto simp add: awaiting_def split: option.splits)

lemma findRequest_id: "findRequest rid s = Some q \<Longrightarrow> rq_id q = rid"
  by (auto simp add: findRequest_def find_Some_iff)

lemma find_append_Some: "find P xs = Some q \<Longrightarrow> find P (xs @ ys) = Some q"
  by (induction xs) auto

lemma find_filter_other:
  "i \<noteq> rid \<Longrightarrow>
   find (\<lambda>q. rq_id q = rid) (filter (\<lambda>q. rq_id q \<noteq> i) xs) = find (\<lambda>q. rq_id q = rid) xs"
  by (induction xs) auto

lemma find_map_other:
  "i \<noteq> rid \<Longrightarrow>
   find (\<lambda>q. rq_id q = rid) (map (\<lambda>x. if rq_id x = i then x\<lparr>rq_phase := ph\<rparr> else x) xs) =
     find (\<lambda>q. rq_id q = rid) xs"
  by (induction xs) auto

lemma stays_sendMessage:
  "findRequest rid s = Some q \<Longrightarrow> findRequest rid (sendMessage r txt s) = Some q"
  by (simp add: findRequest_def sendMessage_def Let_def sendMessage_catch_def addMessage_def
      find_append_Some)

lemma stays_handleSendText:
  "findRequest rid s = Some q \<Longrightarrow> findRequest rid (handleSendText s) = Some q"
  using stays_sendMessage [of rid s q "render_of s" "trim (inputText s)"]
  by (simp add: handleSendText_def findRequest_def)

lemma stays_onresult:
  "findRequest rid s = Some q \<Longrightarrow> findRequest rid (onresult r t s) = Some q"
  using stays_sendMessage [of rid "addMessage t User TextMsg s" q r t]
  by (simp add: onresult_def findRequest_def addMessage_def)

lemma inflight_startRecording: "inflight (startRecording s) = inflight s"
  by (simp add: startRecording_def Let_def addMessage_def cancelIfSpeaking_def synthCancel_def)

lemma inflight_toggleRecording: "inflight (toggleRecording s) = inflight s"
  by (simp add: toggleRecording_def inflight_startRecording stopRecording_def
      stopIfRecording_def)

lemma inflight_toggleSpeaker: "inflight (toggleSpeaker s) = inflight s"
  by (simp add: toggleSpeaker_def synthCancel_def)

lemma inflight_switchMode: "inflight (switchMode m s) = inflight s"
  by (simp add: switchMode_def stopAll_log)

lemma inflight_handleKeyDown: "inflight (handleKeyDown e s) = inflight s"
  by (simp add: handleKeyDown_def stopAll_log inflight_toggleRecording inflight_toggleSpeaker
      inflight_switchMode inflight_startRecording)

lemma stays_response:
  "rq_id q' \<noteq> rid \<Longrightarrow> findRequest rid (sendMessage_response q' ok s) = findRequest rid s"
  by (simp add: sendMessage_response_def findRequest_def clearTimeout_def dropRequest_def
      sendMessage_catch_def addMessage_def find_filter_other find_map_other)

lemma stays_rejected:
  "rq_id q' \<noteq> rid \<Longrightarrow> findRequest rid (sendMessage_rejected q' e s) = findRequest rid s"
  by (simp add: sendMessage_rejected_def findRequest_def dropRequest_def
      sendMessage_catch_def addMessage_def find_filter_other)

lemma stays_json:
  "rq_id q' \<noteq> rid \<Longrightarrow> findRequest rid (sendMessage_json q' out s) = findRequest rid s"
  by (cases out)
    (simp_all add: sendMessage_json_def findRequest_def dropRequest_def sendMessage_catch_def
      addMessage_def find_filter_other Let_def speak_def cancelIfSpeaking_def synthCancel_def)

lemma stays_fire:
  "a \<noteq> AbortFetch rid \<Longrightarrow> findRequest rid (fire a s) = findRequest rid s"
proof (cases a)
  case (RemoveStatus i)
  then show ?thesis by (simp add: fire_def findRequest_def)
next
  case (AbortFetch i)
  assume "a \<noteq> AbortFetch rid"
  with AbortFetch have ne: "i \<noteq> rid" by simp
  show ?thesis
  proof (cases "findRequest i s")
    case None
    with AbortFetch show ?thesis by (simp add: fire_def)
  next
    case (Some q')
    then have "rq_id q' = i" by (rule findRequest_id)
    with ne Some AbortFetch show ?thesis
      by (simp add: fire_def stays_rejected)
  qed
qed

lemma stays_fireAll:
  "\<forall>ta\<in>set ds. snd ta \<noteq> AbortFetch rid \<Longrightarrow>
   findRequest rid (fireAll ds s) = findRequest rid s"
proof (induction ds arbitrary: s)
  case Nil
  then show ?case by simp
next
  case (Cons x ds)
  obtain t a where x: "x = (t, a)" by (cases x)
  from Cons.prems x have a: "a \<noteq> AbortFetch rid" and r: "\<forall>ta\<in>set ds. snd ta \<noteq> AbortFetch rid"
    by auto
  have "findRequest rid (fire a (s\<lparr>clock := max (clock s) t\<rparr>)) = findRequest rid s"
    using a by (simp add: stays_fire) (simp add: findRequest_def)
  with Cons.IH [OF r] show ?case
    by (simp add: x)
qed

lemma stays_advance:
  assumes "list_all (\<lambda>ta. isDue (clock s + d) ta \<longrightarrow> snd ta \<noteq> AbortFetch rid) (timers s)"
  shows "findRequest rid (advance d s) = findRequest rid s"
proof -
  have "\<forall>ta\<in>set (sort_key fst (filter (isDue (clock s + d)) (timers s))). snd ta \<noteq> AbortFetch rid"
    using assms by (auto simp add: list_all_iff)
  from stays_fireAll [OF this] show ?thesis
    by (simp add: advance_def findRequest_def)
qed

lemma stays_step:
  assumes "quiet rid s e" and "findRequest rid s = Some q"
  shows "findRequest rid (step e s) = Some q"
proof (cases e)
  case (Change t)
  with assms(2) show ?thesis by (simp add: findRequest_def)
next
  case ClickSend
  with assms(2) show ?thesis by (simp add: stays_handleSendText)
next
  case ClickMic
  with assms(2) show ?thesis by (simp add: findRequest_def inflight_toggleRecording)
next
  case ClickSpeaker
  with assms(2) show ?thesis by (simp add: findRequest_def inflight_toggleSpeaker)
next
  case ClickStop
  with assms(2) show ?thesis by (simp add: findRequest_def stopAll_log)
next
  case (ClickMode m)
  with assms(2) show ?thesis by (simp add: findRequest_def inflight_switchMode)
next
  case (KeyDown k)
  with assms(2) show ?thesis by (simp add: findRequest_def inflight_handleKeyDown)
next
  case Online
  with assms(2) show ?thesis by (simp add: findRequest_def)
next
  case Offline
  with assms(2) show ?thesis by (simp add: findRequest_def)
next
  case (RecResult t)
  with assms(2) show ?thesis by (simp add: stays_onresult split: option.splits)
next
  case (RecError x)
  with assms(2) show ?thesis by (simp add: findRequest_def onerror_def addMessage_def)
next
  case RecEnd
  with assms(2) show ?thesis by (simp add: findRequest_def onend_def)
next
  case (FetchResponse i ok)
  with assms(1) have ne: "i \<noteq> rid" by (simp add: quiet_def)
  show ?thesis
  proof (cases "awaiting i AwaitingFetch s")
    case None
    with FetchResponse assms(2) show ?thesis by simp
  next
    case (Some q')
    then have "rq_id q' = i" by (auto simp add: awaiting_iff dest: findRequest_id)
    with ne Some FetchResponse assms(2) show ?thesis by (simp add: stays_response)
  qed
next
  case (FetchFailed i)
  with assms(1) have ne: "i \<noteq> rid" by (simp add: quiet_def)
  show ?thesis
  proof (cases "awaiting i AwaitingFetch s")
    case None
    with FetchFailed assms(2) show ?thesis by simp
  next
    case (Some q')
    then have "rq_id q' = i" by (auto simp add: awaiting_iff dest: findRequest_id)
    with ne Some FetchFailed assms(2) show ?thesis by (simp add: stays_rejected)
  qed
next
  case (JsonSettled i out)
  with assms(1) have ne: "i \<noteq> rid" by (simp add: quiet_def)
  show ?thesis
  proof (cases "awaiting i AwaitingJson s")
    case None
    with JsonSettled assms(2) show ?thesis by simp
  next
    case (Some q')
    then have "rq_id q' = i" by (auto simp add: awaiting_iff dest: findRequest_id)
    with ne Some JsonSettled assms(2) show ?thesis by (simp add: stays_json)
  qed
next
  case UtteranceStart
  with assms(2) show ?thesis by (simp add: findRequest_def)
next
  case UtteranceEnd
  with assms(2) show ?thesis by (simp add: findRequest_def)
next
  case UtteranceError
  with assms(2) show ?thesis by (simp add: findRequest_def)
next
  case UtteranceCancelled
  with assms(2) show ?thesis by (simp add: findRequest_def)
next
  case (Advance d)
  with assms show ?thesis by (simp add: quiet_def stays_advance)
qed

lemma stays_run:
  "quietRun rid es s \<Longrightarrow> findRequest rid s = Some q \<Longrightarrow> findRequest rid (run es s) = Some q"
proof (induction es arbitrary: s)
  case Nil
  then show ?case by (simp add: run_def)
next
  case (Cons e es)
  from Cons.prems have "findRequest rid (step e s) = Some q" "quietRun rid es (step e s)"
    by (simp_all add: stays_step)
  with Cons.IH [of "step e s"] show ?case
    by (simp add: run_def)
qed

lemma awaiting_run:
  "quietRun rid es s \<Longrightarrow> awaiting rid ph s = Some q \<Longrightarrow> awaiting rid ph (run es s) = Some q"
  by (simp add: awaiting_iff stays_run)

subsection \<open>What an outcome appends\<close>

lemma catch_log:
  "messages (sendMessage_catch e s) =
     messages s @ [newMessage (crossMark @ js '' '' @ errorMessage e s) Bot ErrorMsg s]"
  by (simp add: sendMessage_catch_def addMessage_def newMessage_def errorMessage_def)

lemma failed_appends:
  "awaiting rid AwaitingFetch x = Some q \<Longrightarrow>
   messages (step (FetchFailed rid) x) =
     messages x @ [newMessage (crossMark @ js '' '' @ errorMessage OtherError x) Bot ErrorMsg x]"
  by (simp add: sendMessage_rejected_def catch_log dropRequest_def errorMessage_def
      newMessage_def)

lemma http_error_appends:
  "awaiting rid AwaitingFetch x = Some q \<Longrightarrow>
   messages (step (FetchResponse rid False) x) =
     messages x @ [newMessage (crossMark @ js '' '' @ errorMessage OtherError x) Bot ErrorMsg x]"
  by (simp add: sendMessage_response_def catch_log dropRequest_def clearTimeout_def
      errorMessage_def newMessage_def)

lemma response_keeps_log:
  "awaiting rid AwaitingFetch x = Some q \<Longrightarrow>
   messages (step (FetchResponse rid True) x) = messages x"
  by (simp add: sendMessage_response_def clearTimeout_def)

lemma abort_appends:
  "findRequest rid x = Some q \<Longrightarrow>
   messages (fire (AbortFetch rid) x) =
     messages x @ [newMessage (crossMark @ js '' '' @ timedOutText) Bot ErrorMsg x]"
  by (simp add: fire_abort catch_log dropRequest_def errorMessage_def newMessage_def)

lemma answer_appends:
  "awaiting rid AwaitingJson x = Some q \<Longrightarrow>
   messages (step (JsonSettled rid (JsonParsed a)) x) =
     messages x @ [newMessage (answerText a) Bot TextMsg x]"
  by (simp add: sendMessage_json_def Let_def speak_def cancelIfSpeaking_def synthCancel_def
      addMessage_def newMessage_def dropRequest_def)

lemma json_failed_appends:
  "awaiting rid AwaitingJson x = Some q \<Longrightarrow>
   messages (step (JsonSettled rid JsonFailed) x) =
     messages x @ [newMessage (crossMark @ js '' '' @ errorMessage OtherError x) Bot ErrorMsg x]"
  by (simp add: sendMessage_json_def catch_log dropRequest_def errorMessage_def newMessage_def)

lemma timeout_appends:
  assumes "findRequest rid x = Some q"
    and "filter (isDue (clock x + d)) (timers x) = [(t, AbortFetch rid)]"
  shows "messages (advance d x) =
     messages x @
       [\<lparr>msg_id = (max (clock x) t, messageCounter x + 1),
         msg_text = crossMark @ js '' '' @ timedOutText, msg_sender = Bot,
         msg_timestamp = max (clock x) t, msg_type = ErrorMsg\<rparr>]"
proof -
  let ?x0 = "x\<lparr>timers := filter (\<lambda>ta. \<not> isDue (clock x + d) ta) (timers x),
    clock := max (clock x) t\<rparr>"
  have "findRequest rid ?x0 = Some q"
    using assms(1) by (simp add: findRequest_def)
  from abort_appends [OF this] show ?thesis
    by (simp add: advance_def assms(2) newMessage_def)
qed

text \<open>
  Claim C1, as amended. \<open>stopAll\<close> sets \<open>isProcessing\<close> and \<open>isTyping\<close> to false and leaves
  the requests in flight and their timeouts as they are. Take a request that is in flight
  at \<open>stopAll\<close>, and let any history follow that is quiet for it. When its outcome then
  arrives, the result is appended to the log as it is without a stop: one error message
  of the bot when \<^verbatim>\<open>fetch\<close> fails, when the response is not ok, when the body does not
  parse or when the timeout fires (also by the passing of time, when it is the one timeout
  that falls due); nothing on a response that is ok; and, after any further quiet
  history, one text message of the bot with the answer when the body has been parsed.
\<close>

theorem response_after_stopAll:
  assumes "quietRun rid es1 (stopAll s)"
    and "quietRun rid es2 (step (FetchResponse rid True) (run es1 (stopAll s)))"
  shows
    "\<not> isProcessing (stopAll s) \<and> \<not> isTyping (stopAll s) \<and>
     inflight (stopAll s) = inflight s \<and> timers (stopAll s) = timers s \<and>
     (awaiting rid AwaitingFetch s = Some q \<longrightarrow>
        (let x = run es1 (stopAll s); y = run es2 (step (FetchResponse rid True) x) in
           messages (step (FetchFailed rid) x) =
             messages x @
               [newMessage (crossMark @ js '' '' @ errorMessage OtherError x) Bot ErrorMsg x] \<and>
           messages (step (FetchResponse rid False) x) =
             messages x @
               [newMessage (crossMark @ js '' '' @ errorMessage OtherError x) Bot ErrorMsg x] \<and>
           messages (fire (AbortFetch rid) x) =
             messages x @ [newMessage (crossMark @ js '' '' @ timedOutText) Bot ErrorMsg x] \<and>
           (filter (isDue (clock x + d)) (timers x) = [(t, AbortFetch rid)] \<longrightarrow>
              messages (advance d x) =
                messages x @
                  [\<lparr>msg_id = (max (clock x) t, messageCounter x + 1),
                    msg_text = crossMark @ js '' '' @ timedOutText, msg_sender = Bot,
                    msg_timestamp = max (clock x) t, msg_type = ErrorMsg\<rparr>]) \<and>
           messages (step (FetchResponse rid True) x) = messages x \<and>
           messages (step (JsonSettled rid (JsonParsed a)) y) =
             messages y @ [newMessage (answerText a) Bot TextMsg y] \<and>
           messages (step (JsonSettled rid JsonFailed) y) =
             messages y @
               [newMessage (crossMark @ js '' '' @ errorMessage OtherError y) Bot ErrorMsg y])) \<and>
     (awaiting rid AwaitingJson s = Some q \<longrightarrow>
        (let x = run es1 (stopAll s) in
           messages (step (JsonSettled rid (JsonParsed a)) x) =
             messages x @ [newMessage (answerText a) Bot TextMsg x] \<and>
           messages (step (JsonSettled rid JsonFailed) x) =
             messages x @
               [newMessage (crossMark @ js '' '' @ errorMessage OtherError x) Bot ErrorMsg x]))"
proof -
  define x where "x = run es1 (stopAll s)"
  define y where "y = run es2 (step (FetchResponse rid True) x)"
  have flags: "\<not> isProcessing (stopAll s) \<and> \<not> isTyping (stopAll s) \<and>
     inflight (stopAll s) = inflight s \<and> timers (stopAll s) = timers s"
    by (simp add: stopAll_def cancelIfSpeaking_def synthCancel_def stopIfRecording_def)
  have fetch: "messages (step (FetchFailed rid) x) =
             messages x @
               [newMessage (crossMark @ js '' '' @ errorMessage OtherError x) Bot ErrorMsg x] \<and>
           messages (step (FetchResponse rid False) x) =
             messages x @
               [newMessage (crossMark @ js '' '' @ errorMessage OtherError x) Bot ErrorMsg x] \<and>
           messages (fire (AbortFetch rid) x) =
             messages x @ [newMessage (crossMark @ js '' '' @ timedOutText) Bot ErrorMsg x] \<and>
           (filter (isDue (clock x + d)) (timers x) = [(t, AbortFetch rid)] \<longrightarrow>
              messages (advance d x) =
                messages x @
                  [\<lparr>msg_id = (max (clock x) t, messageCounter x + 1),
                    msg_text = crossMark @ js '' '' @ timedOutText, msg_sender = Bot,
                    msg_timestamp = max (clock x) t, msg_type = ErrorMsg\<rparr>]) \<and>
           messages (step (FetchResponse rid True) x) = messages x \<and>
           messages (step (JsonSettled rid (JsonParsed a)) y) =
             messages y @ [newMessage (answerText a) Bot TextMsg y] \<and>
           messages (step (JsonSettled rid JsonFailed) y) =
             messages y @
               [newMessage (crossMark @ js '' '' @ errorMessage OtherError y) Bot ErrorMsg y]"
    if a: "awaiting rid AwaitingFetch s = Some q"
  proof -
    from a have "awaiting rid AwaitingFetch (stopAll s) = Some q"
      by (simp add: awaiting_stopAll)
    with assms(1) have ax: "awaiting rid AwaitingFetch x = Some q"
      unfolding x_def by (rule awaiting_run)
    then have fx: "findRequest rid x = Some q"
      by (simp add: awaiting_iff)
    from ax have "awaiting rid AwaitingJson (step (FetchResponse rid True) x) =
        Some (q\<lparr>rq_phase := AwaitingJson\<rparr>)"
      by (simp add: response_ok_awaiting)
    with assms(2) have ay: "awaiting rid AwaitingJson y = Some (q\<lparr>rq_phase := AwaitingJson\<rparr>)"
      unfolding y_def x_def by (rule awaiting_run)
    show ?thesis
      using failed_appends [OF ax] http_error_appends [OF ax] abort_appends [OF fx]
        timeout_appends [OF fx, of d t] response_keeps_log [OF ax]
        answer_appends [OF ay, of a] json_failed_appends [OF ay]
      by blast
  qed
  have json: "messages (step (JsonSettled rid (JsonParsed a)) x) =
             messages x @ [newMessage (answerText a) Bot TextMsg x] \<and>
           messages (step (JsonSettled rid JsonFailed) x) =
             messages x @
               [newMessage (crossMark @ js '' '' @ errorMessage OtherError x) Bot ErrorMsg x]"
    if a: "awaiting rid AwaitingJson s = Some q"
  proof -
    from a have "awaiting rid AwaitingJson (stopAll s) = Some q"
      by (simp add: awaiting_stopAll)
    with assms(1) have ax: "awaiting rid AwaitingJson x = Some q"
      unfolding x_def by (rule awaiting_run)
    show ?thesis
      using answer_appends [OF ax, of a] json_failed_appends [OF ax] by blast
  qed
  from flags fetch json show ?thesis
    unfolding Let_def x_def [symmetric] y_def [symmetric] by blast
qed

theorem response_after_stopAll_witness:
  "quietRun 0 [Advance 1] (stopAll afterSend) \<and>
   quietRun 0 [Advance 2] (step (FetchResponse 0 True) (run [Advance 1] (stopAll afterSend))) \<and>
   awaiting 0 AwaitingFetch afterSend \<noteq> None \<and>
   \<not> isProcessing (stopAll afterSend) \<and> \<not> isTyping (stopAll afterSend) \<and>
   messages
     (run [ClickStop, Advance 1, FetchResponse 0 True, Advance 2,
           JsonSettled 0 (JsonParsed (Some (js ''yo'')))] afterSend) =
     [\<lparr>msg_id = (0, 1), msg_text = js ''hi'', msg_sender = User, msg_timestamp = 0,
       msg_type = TextMsg\<rparr>,
      \<lparr>msg_id = (3, 2), msg_text = js ''yo'', msg_sender = Bot, msg_timestamp = 3,
       msg_type = TextMsg\<rparr>] \<and>
   map msg_type (messages (run [ClickStop, Advance 1, FetchFailed 0] afterSend)) =
     [TextMsg, ErrorMsg] \<and>
   map msg_type (messages (run [ClickStop, Advance 1, FetchResponse 0 False] afterSend)) =
     [TextMsg, ErrorMsg] \<and>
   map msg_id (messages (run [ClickStop, Advance 1, Advance 15000] afterSend)) =
     [(0, 1), (15000, 2)]"
proof -
  have h1: "quietRun 0 [Advance 1] (stopAll afterSend)"
    by (simp add: quiet_def afterSend_def loop_defs send_defs string_defs message_defs
        synth_defs ctl_defs stopIfRecording_def Let_def)
  have h2: "quietRun 0 [Advance 2]
      (step (FetchResponse 0 True) (run [Advance 1] (stopAll afterSend)))"
    by (simp add: quiet_def afterSend_def loop_defs send_defs string_defs message_defs
        synth_defs ctl_defs stopIfRecording_def Let_def)
  show ?thesis
    using h1 h2
      response_after_stopAll [OF h1 h2, where a = "Some (js ''yo'')" and d = 15000
        and t = 15000]
    by (simp add: afterSend_def loop_defs send_defs string_defs message_defs
        synth_defs ctl_defs stopIfRecording_def Let_def timedOutText_def)
qed

subsection \<open>Transcripts in push-to-talk mode\<close>

text \<open>
  Claim C2 does not hold. Offline, the transcript is logged and not dispatched. Online,
  the request is issued once and the log gains the user message twice: the handler
  appends the transcript and then \<open>sendMessage\<close> appends it again.
\<close>

theorem voice_transcript_counterexample:
  "currentMode listeningVoiceOffline = Voice \<and> \<not> isProcessing listeningVoiceOffline \<and>
   inflight listeningVoiceOffline = [] \<and>
   fetchLog (step (RecResult (js ''hello'')) listeningVoiceOffline) = [] \<and>
   currentMode listeningVoice = Voice \<and> \<not> isProcessing listeningVoice \<and>
   inflight listeningVoice = [] \<and> messages listeningVoice = [] \<and>
   map msg_text (messages (step (RecResult (js ''hello'')) listeningVoice)) =
     [js ''hello'', js ''hello''] \<and>
   map msg_sender (messages (step (RecResult (js ''hello'')) listeningVoice)) = [User, User]"
  by (simp add: listeningVoice_def listeningVoiceOffline_def loop_defs send_defs string_defs
      message_defs synth_defs ctl_defs rec_defs Let_def)

text \<open>
  Claim C2, as amended. When the recogniser delivers a transcript \<open>t\<close> that is not blank
  and has no lone surrogate to handlers that were assigned in push-to-talk mode, in a
  render that was online and not processing, then \<^verbatim>\<open>fetch\<close> is called with \<open>t\<close> exactly
  once, and the log gains text messages of the user with the text \<open>t\<close>, at least one, and
  nothing else.
\<close>

theorem voice_transcript_dispatched:
  "recActive s \<Longrightarrow> recHandlers s = Some r \<Longrightarrow> r_currentMode r = Voice \<Longrightarrow>
   \<not> r_isProcessing r \<Longrightarrow> r_connectionOnline r \<Longrightarrow> \<not> blank t \<Longrightarrow> wellFormed t \<Longrightarrow>
   fetchLog (step (RecResult t) s) = fetchLog s @ [t] \<and>
   take (length (messages s)) (messages (step (RecResult t) s)) = messages s \<and>
   set (map (\<lambda>m. (msg_text m, msg_sender m, msg_type m))
          (drop (length (messages s)) (messages (step (RecResult t) s)))) =
     {(t, User, TextMsg)}"
  by (simp add: onresult_def sendMessage_def Let_def addMessage_def newMessage_def)

theorem voice_transcript_dispatched_witness:
  "recActive listeningVoice \<and>
   recHandlers listeningVoice =
     Some \<lparr>r_currentMode = Voice, r_isProcessing = False, r_connectionOnline = True,
           r_speechEnabled = True\<rparr> \<and>
   \<not> blank (js ''hello'') \<and> wellFormed (js ''hello'') \<and>
   fetchLog (step (RecResult (js ''hello'')) listeningVoice) = [js ''hello''] \<and>
   set (map msg_text (messages (step (RecResult (js ''hello'')) listeningVoice))) = {js ''hello''}"
  using voice_transcript_dispatched [of listeningVoice
      "\<lparr>r_currentMode = Voice, r_isProcessing = False, r_connectionOnline = True,
        r_speechEnabled = True\<rparr>" "js ''hello''"]
  by (simp add: listeningVoice_def loop_defs send_defs string_defs
      message_defs synth_defs ctl_defs rec_defs Let_def)

subsection \<open>Lifetime of messages\<close>

lemma logInv_init: "logInv (init a b)"
  by (simp add: logInv_def init_def)

lemma appends_refl: "appends s s"
  by (simp add: appends_def fresh_def)

lemma appends_split:
  "appends s s' \<Longrightarrow> \<exists>new. messages s' = messages s @ new \<and> fresh s s' new"
  unfolding appends_def by (metis append_take_drop_id)

lemma appendsI:
  "clock s' = clock s \<Longrightarrow> messageCounter s \<le> messageCounter s' \<Longrightarrow>
   messages s' = messages s @ new \<Longrightarrow> fresh s s' new \<Longrightarrow>
   (\<forall>ta\<in>set (timers s'). ta \<in> set (timers s) \<or> (clock s < fst ta \<and> \<not> isRemoval (snd ta))) \<Longrightarrow>
   (\<forall>ta\<in>set (timers s). isRemoval (snd ta) \<longrightarrow> ta \<in> set (timers s')) \<Longrightarrow>
   appends s s'"
  by (simp add: appends_def)

lemma appends_trans:
  assumes "appends s s'" and "appends s' s''"
  shows "appends s s''"
proof -
  from assms(1) obtain n1 where n1: "messages s' = messages s @ n1" "fresh s s' n1"
    using appends_split by blast
  from assms(2) obtain n2 where n2: "messages s'' = messages s' @ n2" "fresh s' s'' n2"
    using appends_split by blast
  have c: "clock s' = clock s" "clock s'' = clock s'"
    "messageCounter s \<le> messageCounter s'" "messageCounter s' \<le> messageCounter s''"
    using assms by (simp_all add: appends_def)
  have t1: "\<forall>ta\<in>set (timers s'). ta \<in> set (timers s) \<or> (clock s < fst ta \<and> \<not> isRemoval (snd ta))"
    and t2: "\<forall>ta\<in>set (timers s''). ta \<in> set (timers s') \<or> (clock s' < fst ta \<and> \<not> isRemoval (snd ta))"
    and k1: "\<forall>ta\<in>set (timers s). isRemoval (snd ta) \<longrightarrow> ta \<in> set (timers s')"
    and k2: "\<forall>ta\<in>set (timers s'). isRemoval (snd ta) \<longrightarrow> ta \<in> set (timers s'')"
    using assms by (simp_all add: appends_def)
  show ?thesis
  proof (rule appendsI [where new = "n1 @ n2"])
    show "clock s'' = clock s" using c by simp
    show "messageCounter s \<le> messageCounter s''" using c by simp
    show "messages s'' = messages s @ n1 @ n2" using n1 n2 by simp
    show "fresh s s'' (n1 @ n2)"
      using n1(2) n2(2) c unfolding fresh_def by fastforce
    show "\<forall>ta\<in>set (timers s''). ta \<in> set (timers s) \<or> (clock s < fst ta \<and> \<not> isRemoval (snd ta))"
      using t1 t2 c by metis
    show "\<forall>ta\<in>set (timers s). isRemoval (snd ta) \<longrightarrow> ta \<in> set (timers s'')"
      using k1 k2 by blast
  qed
qed

lemma appends_inv:
  assumes "logInv s" and "appends s s'"
  shows "logInv s'"
proof -
  from assms(2) obtain new where n: "messages s' = messages s @ new" "fresh s s' new"
    using appends_split by blast
  have c: "clock s' = clock s" "messageCounter s \<le> messageCounter s'"
    and t: "\<forall>ta\<in>set (timers s'). ta \<in> set (timers s) \<or> (clock s < fst ta \<and> \<not> isRemoval (snd ta))"
    and k: "\<forall>ta\<in>set (timers s). isRemoval (snd ta) \<longrightarrow> ta \<in> set (timers s')"
    using assms(2) by (simp_all add: appends_def)
  have i1: "\<forall>m\<in>set (messages s). snd (msg_id m) \<le> messageCounter s"
    and i2: "\<forall>ta\<in>set (timers s). clock s < fst ta \<and> removalOk s ta"
    and i3: "\<forall>m\<in>set (messages s). msg_type m = StatusMsg \<longrightarrow>
        (fst (msg_id m) + 5000, RemoveStatus (msg_id m)) \<in> set (timers s)"
    using assms(1) by (simp_all add: logInv_def)
  have a: "\<forall>m\<in>set (messages s'). snd (msg_id m) \<le> messageCounter s'"
    using i1 n c unfolding fresh_def by fastforce
  have b: "\<forall>ta\<in>set (timers s'). clock s' < fst ta \<and> removalOk s' ta"
  proof
    fix ta assume ta: "ta \<in> set (timers s')"
    show "clock s' < fst ta \<and> removalOk s' ta"
    proof (cases "ta \<in> set (timers s)")
      case True
      with i2 have o: "clock s < fst ta" "removalOk s ta" by auto
      have "removalOk s' ta"
      proof (cases "snd ta")
        case (RemoveStatus i)
        with o(2) have r: "snd i \<le> messageCounter s" "fst ta = fst i + 5000"
          "\<forall>m\<in>set (messages s). msg_id m = i \<longrightarrow> msg_type m = StatusMsg"
          by (simp_all add: removalOk_def)
        have "\<forall>m\<in>set new. msg_id m \<noteq> i"
          using n(2) r(1) unfolding fresh_def by fastforce
        with r n(1) c RemoveStatus show ?thesis
          by (auto simp add: removalOk_def)
      next
        case (AbortFetch rid)
        then show ?thesis by (simp add: removalOk_def)
      qed
      with o c show ?thesis by simp
    next
      case False
      with t ta have "clock s < fst ta" "\<not> isRemoval (snd ta)" by auto
      then show ?thesis
        using c by (cases "snd ta") (simp_all add: removalOk_def isRemoval_def)
    qed
  qed
  have d: "\<forall>m\<in>set (messages s'). msg_type m = StatusMsg \<longrightarrow>
        (fst (msg_id m) + 5000, RemoveStatus (msg_id m)) \<in> set (timers s')"
  proof (intro ballI impI)
    fix m assume m: "m \<in> set (messages s')" "msg_type m = StatusMsg"
    with n have "m \<in> set (messages s)"
      unfolding fresh_def by auto
    with i3 m(2) have "(fst (msg_id m) + 5000, RemoveStatus (msg_id m)) \<in> set (timers s)"
      by blast
    with k show "(fst (msg_id m) + 5000, RemoveStatus (msg_id m)) \<in> set (timers s')"
      by (auto simp add: isRemoval_def)
  qed
  from a b d show ?thesis by (simp add: logInv_def)
qed

lemma appends_member:
  assumes "appends s s'" and "snd (msg_id m) \<le> messageCounter s"
  shows "m \<in> set (messages s') \<longleftrightarrow> m \<in> set (messages s)"
proof -
  from assms(1) obtain new where n: "messages s' = messages s @ new" "fresh s s' new"
    using appends_split by blast
  from n(2) assms(2) have "m \<notin> set new"
    unfolding fresh_def by fastforce
  with n(1) show ?thesis by simp
qed

lemma appends_addMessage: "ty \<noteq> StatusMsg \<Longrightarrow> appends s (addMessage txt sd ty s)"
  by (simp add: appends_def fresh_def addMessage_def newMessage_def)

lemma appends_sendMessage: "appends s (sendMessage r txt s)"
  by (simp add: appends_def fresh_def sendMessage_def sendMessage_catch_def addMessage_def
      newMessage_def Let_def isRemoval_def)

lemma appends_response: "appends s (sendMessage_response q ok s)"
  by (auto simp add: appends_def fresh_def sendMessage_response_def sendMessage_catch_def
      addMessage_def newMessage_def clearTimeout_def dropRequest_def isRemoval_def)

lemma appends_rejected: "appends s (sendMessage_rejected q e s)"
  by (simp add: appends_def fresh_def sendMessage_rejected_def sendMessage_catch_def
      addMessage_def newMessage_def dropRequest_def)

lemma appends_json: "appends s (sendMessage_json q out s)"
  by (cases out)
    (simp_all add: appends_def fresh_def sendMessage_json_def sendMessage_catch_def
      addMessage_def newMessage_def dropRequest_def Let_def speak_def cancelIfSpeaking_def
      synthCancel_def)

lemma appends_handleSendText: "appends s (handleSendText s)"
proof -
  have "appends (sendMessage (render_of s) (trim (inputText s)) s)
      ((sendMessage (render_of s) (trim (inputText s)) s)\<lparr>inputText := []\<rparr>)"
    by (simp add: appends_def fresh_def)
  with appends_sendMessage [of s "render_of s" "trim (inputText s)"] show ?thesis
    by (auto simp add: handleSendText_def appends_refl intro: appends_trans)
qed

lemma appends_startRecording: "appends s (startRecording s)"
  by (simp add: appends_def fresh_def startRecording_def addMessage_def newMessage_def Let_def
      cancelIfSpeaking_def synthCancel_def)

lemma appends_stopRecording: "appends s (stopRecording s)"
  by (simp add: appends_def fresh_def stopRecording_def stopIfRecording_def)

lemma appends_toggleRecording: "appends s (toggleRecording s)"
  by (simp add: toggleRecording_def appends_startRecording appends_stopRecording)

lemma appends_toggleSpeaker: "appends s (toggleSpeaker s)"
  by (simp add: appends_def fresh_def toggleSpeaker_def synthCancel_def)

lemma appends_stopAll: "appends s (stopAll s)"
  by (simp add: appends_def fresh_def stopAll_def stopIfRecording_def cancelIfSpeaking_def
      synthCancel_def)

lemma appends_switchMode: "appends s (switchMode m s)"
proof -
  have "appends (stopAll s) ((stopAll s)\<lparr>currentMode := m\<rparr>)"
    by (simp add: appends_def fresh_def)
  with appends_stopAll [of s] show ?thesis
    unfolding switchMode_def by (rule appends_trans)
qed

lemma appends_handleKeyDown: "appends s (handleKeyDown e s)"
  by (simp add: handleKeyDown_def appends_refl appends_stopAll appends_toggleRecording
      appends_toggleSpeaker appends_switchMode appends_startRecording)

lemma appends_onresult: "appends s (onresult r t s)"
proof (cases "r_currentMode r = Chat")
  case True
  then show ?thesis
    by (simp add: onresult_def appends_def fresh_def)
next
  case False
  let ?a = "addMessage t User TextMsg s"
  have "appends s ?a"
    by (simp add: appends_addMessage)
  moreover have "appends ?a (sendMessage r t ?a)"
    by (rule appends_sendMessage)
  moreover have "appends (sendMessage r t ?a) ((sendMessage r t ?a)\<lparr>isRecording := False\<rparr>)"
    by (simp add: appends_def fresh_def)
  ultimately have "appends s ((sendMessage r t ?a)\<lparr>isRecording := False\<rparr>)"
    by (blast intro: appends_trans)
  with False show ?thesis
    by (simp add: onresult_def)
qed

lemma appends_onerror: "appends s (onerror e s)"
  by (simp add: appends_def fresh_def onerror_def addMessage_def newMessage_def)

lemma appends_step: "\<forall>d. e \<noteq> Advance d \<Longrightarrow> appends s (step e s)"
proof (cases e)
  case (Change t)
  then show ?thesis by (simp add: appends_def fresh_def)
next
  case ClickSend
  then show ?thesis by (simp add: appends_handleSendText appends_refl)
next
  case ClickMic
  then show ?thesis by (simp add: appends_toggleRecording appends_refl)
next
  case ClickSpeaker
  then show ?thesis by (simp add: appends_toggleSpeaker)
next
  case ClickStop
  then show ?thesis by (simp add: appends_stopAll)
next
  case (ClickMode m)
  then show ?thesis by (simp add: appends_switchMode)
next
  case (KeyDown k)
  then show ?thesis by (simp add: appends_handleKeyDown)
next
  case Online
  then show ?thesis by (simp add: appends_def fresh_def)
next
  case Offline
  then show ?thesis by (simp add: appends_def fresh_def)
next
  case (RecResult t)
  then show ?thesis by (simp add: appends_onresult appends_refl split: option.splits)
next
  case (RecError x)
  then show ?thesis by (simp add: appends_onerror appends_refl)
next
  case RecEnd
  then show ?thesis by (simp add: appends_def fresh_def onend_def)
next
  case (FetchResponse rid ok)
  then show ?thesis by (simp add: appends_response appends_refl split: option.splits)
next
  case (FetchFailed rid)
  then show ?thesis by (simp add: appends_rejected appends_refl split: option.splits)
next
  case (JsonSettled rid out)
  then show ?thesis by (simp add: appends_json appends_refl split: option.splits)
next
  case UtteranceStart
  then show ?thesis by (simp add: appends_def fresh_def)
next
  case UtteranceEnd
  then show ?thesis by (simp add: appends_def fresh_def)
next
  case UtteranceError
  then show ?thesis by (simp add: appends_def fresh_def)
next
  case UtteranceCancelled
  then show ?thesis by (simp add: appends_def fresh_def)
next
  case (Advance d)
  assume "\<forall>d. e \<noteq> Advance d"
  with Advance show ?thesis by simp
qed

lemma known_mono: "known s ta \<Longrightarrow> messageCounter s \<le> messageCounter s' \<Longrightarrow> known s' ta"
  by (cases "snd ta") (simp_all add: known_def)

lemma removalOk_known: "removalOk s ta \<Longrightarrow> known s ta"
  by (cases "snd ta") (simp_all add: known_def removalOk_def)

lemma appends_fire_abort: "appends s (fire (AbortFetch rid) s)"
  by (simp add: fire_def appends_refl appends_rejected split: option.splits)

lemma timers_fire: "timers (fire a s) = timers s"
  by (cases a)
    (simp_all add: fire_def sendMessage_rejected_def sendMessage_catch_def addMessage_def
      dropRequest_def split: option.splits)

lemma fireAll_effect:
  "\<forall>ta\<in>set ds. known s ta \<Longrightarrow>
   timers (fireAll ds s) = timers s \<and> messageCounter s \<le> messageCounter (fireAll ds s) \<and>
   (\<exists>new. messages (fireAll ds s) = filter (spared ds) (messages s) @ new \<and>
      fresh s (fireAll ds s) new)"
proof (induction ds arbitrary: s)
  case Nil
  then show ?case by (simp add: spared_def fresh_def)
next
  case (Cons x ds)
  obtain t a where x: "x = (t, a)" by (cases x)
  define s0 where "s0 = s\<lparr>clock := max (clock s) t\<rparr>"
  define s1 where "s1 = fire a s0"
  have f: "fireAll (x # ds) s = fireAll ds s1"
    by (simp add: x s0_def s1_def)
  show ?case
  proof (cases a)
    case (RemoveStatus i)
    then have m1: "messages s1 = filter (\<lambda>m. msg_id m \<noteq> i) (messages s)"
      and c1: "messageCounter s1 = messageCounter s" and t1: "timers s1 = timers s"
      by (simp_all add: s1_def s0_def fire_def)
    from Cons.prems c1 have "\<forall>ta\<in>set ds. known s1 ta"
      by (auto intro: known_mono)
    from Cons.IH [OF this] obtain new where
      ih: "timers (fireAll ds s1) = timers s1" "messageCounter s1 \<le> messageCounter (fireAll ds s1)"
        "messages (fireAll ds s1) = filter (spared ds) (messages s1) @ new"
        "fresh s1 (fireAll ds s1) new"
      by blast
    have "filter (spared ds) (messages s1) = filter (spared (x # ds)) (messages s)"
      unfolding m1 filter_filter
      by (rule filter_cong) (auto simp add: spared_def x RemoveStatus)
    with ih c1 t1 show ?thesis
      unfolding f by (auto simp add: fresh_def)
  next
    case (AbortFetch rid)
    have "appends s0 s1"
      unfolding s1_def AbortFetch by (rule appends_fire_abort)
    then have c1: "messageCounter s0 \<le> messageCounter s1"
      by (simp add: appends_def)
    from \<open>appends s0 s1\<close> obtain n1 where n1: "messages s1 = messages s0 @ n1" "fresh s0 s1 n1"
      using appends_split by blast
    have t1: "timers s1 = timers s"
      by (simp add: s1_def s0_def timers_fire)
    have s0: "messages s0 = messages s" "messageCounter s0 = messageCounter s"
      by (simp_all add: s0_def)
    from Cons.prems c1 s0 have k: "\<forall>ta\<in>set ds. known s1 ta"
      by (auto intro: known_mono)
    from Cons.IH [OF k] obtain new where
      ih: "timers (fireAll ds s1) = timers s1" "messageCounter s1 \<le> messageCounter (fireAll ds s1)"
        "messages (fireAll ds s1) = filter (spared ds) (messages s1) @ new"
        "fresh s1 (fireAll ds s1) new"
      by blast
    have "\<forall>m\<in>set n1. spared ds m"
    proof
      fix m assume m: "m \<in> set n1"
      with n1(2) s0 have lt: "messageCounter s < snd (msg_id m)"
        by (simp add: fresh_def)
      show "spared ds m"
        unfolding spared_def
      proof
        fix ta assume "ta \<in> set ds"
        with Cons.prems have "known s ta" by simp
        with lt show "snd ta \<noteq> RemoveStatus (msg_id m)"
          by (auto simp add: known_def)
      qed
    qed
    then have k1: "filter (spared ds) n1 = n1"
      by simp
    have sp: "filter (spared ds) (messages s) = filter (spared (x # ds)) (messages s)"
      by (rule filter_cong) (auto simp add: spared_def x AbortFetch)
    have m: "messages (fireAll ds s1) = filter (spared (x # ds)) (messages s) @ (n1 @ new)"
      using ih(3) n1(1) s0 k1 sp by simp
    have fr: "fresh s (fireAll ds s1) (n1 @ new)"
      using n1(2) ih(2) ih(4) c1 s0 unfolding fresh_def by fastforce
    from m fr ih(1) ih(2) c1 s0 t1 show ?thesis
      unfolding f by auto
  qed
qed

lemma clock_advance: "clock (advance d s) = clock s + d"
  by (simp add: advance_def)

lemma advance_effect:
  assumes "logInv s"
  shows "timers (advance d s) = filter (\<lambda>ta. \<not> isDue (clock s + d) ta) (timers s) \<and>
    messageCounter s \<le> messageCounter (advance d s) \<and>
    (\<exists>new. messages (advance d s) =
        filter (spared (filter (isDue (clock s + d)) (timers s))) (messages s) @ new \<and>
      fresh s (advance d s) new)"
proof -
  define due where "due = sort_key fst (filter (isDue (clock s + d)) (timers s))"
  define s0 where "s0 = s\<lparr>timers := filter (\<lambda>ta. \<not> isDue (clock s + d) ta) (timers s)\<rparr>"
  have a: "advance d s = (fireAll due s0)\<lparr>clock := clock s + d\<rparr>"
    by (simp add: advance_def due_def s0_def)
  have sd: "set due = set (filter (isDue (clock s + d)) (timers s))"
    by (simp add: due_def)
  have "\<forall>ta\<in>set due. known s0 ta"
  proof
    fix ta assume "ta \<in> set due"
    with sd have "ta \<in> set (timers s)" by simp
    with assms have "removalOk s ta" by (simp add: logInv_def)
    then have "known s ta"
      by (rule removalOk_known)
    then show "known s0 ta"
      by (rule known_mono) (simp add: s0_def)
  qed
  from fireAll_effect [OF this] obtain new where
    e: "timers (fireAll due s0) = timers s0" "messageCounter s0 \<le> messageCounter (fireAll due s0)"
      "messages (fireAll due s0) = filter (spared due) (messages s0) @ new"
      "fresh s0 (fireAll due s0) new"
    by blast
  have "spared due = spared (filter (isDue (clock s + d)) (timers s))"
    by (simp add: spared_def fun_eq_iff sd)
  with e show ?thesis
    unfolding a by (auto simp add: s0_def fresh_def)
qed

lemma advance_inv:
  assumes "logInv s"
  shows "logInv (advance d s)"
proof -
  let ?s' = "advance d s"
  let ?T = "clock s + d"
  from advance_effect [OF assms, of d] obtain new where
    t: "timers ?s' = filter (\<lambda>ta. \<not> isDue ?T ta) (timers s)"
    and c: "messageCounter s \<le> messageCounter ?s'"
    and m: "messages ?s' = filter (spared (filter (isDue ?T) (timers s))) (messages s) @ new"
    and f: "fresh s ?s' new"
    by blast
  have i1: "\<forall>m\<in>set (messages s). snd (msg_id m) \<le> messageCounter s"
    and i2: "\<forall>ta\<in>set (timers s). clock s < fst ta \<and> removalOk s ta"
    and i3: "\<forall>m\<in>set (messages s). msg_type m = StatusMsg \<longrightarrow>
        (fst (msg_id m) + 5000, RemoveStatus (msg_id m)) \<in> set (timers s)"
    using assms by (simp_all add: logInv_def)
  have a: "\<forall>m\<in>set (messages ?s'). snd (msg_id m) \<le> messageCounter ?s'"
    using i1 c f unfolding m fresh_def by fastforce
  have b: "\<forall>ta\<in>set (timers ?s'). clock ?s' < fst ta \<and> removalOk ?s' ta"
  proof
    fix ta assume "ta \<in> set (timers ?s')"
    then have ta: "ta \<in> set (timers s)" "\<not> isDue ?T ta"
      by (simp_all add: t)
    with i2 have ok: "removalOk s ta" by simp
    have "removalOk ?s' ta"
    proof (cases "snd ta")
      case (RemoveStatus i)
      with ok have r: "snd i \<le> messageCounter s" "fst ta = fst i + 5000"
        "\<forall>m\<in>set (messages s). msg_id m = i \<longrightarrow> msg_type m = StatusMsg"
        by (simp_all add: removalOk_def)
      have "\<forall>m\<in>set new. msg_id m \<noteq> i"
        using f r(1) unfolding fresh_def by fastforce
      with r c RemoveStatus show ?thesis
        by (auto simp add: removalOk_def m)
    next
      case (AbortFetch rid)
      then show ?thesis by (simp add: removalOk_def)
    qed
    with ta(2) show "clock ?s' < fst ta \<and> removalOk ?s' ta"
      by (simp add: clock_advance isDue_def)
  qed
  have e: "\<forall>m\<in>set (messages ?s'). msg_type m = StatusMsg \<longrightarrow>
        (fst (msg_id m) + 5000, RemoveStatus (msg_id m)) \<in> set (timers ?s')"
  proof (intro ballI impI)
    fix x assume x: "x \<in> set (messages ?s')" "msg_type x = StatusMsg"
    with f have "x \<notin> set new"
      unfolding fresh_def by auto
    with x(1) have o: "x \<in> set (messages s)" "spared (filter (isDue ?T) (timers s)) x"
      unfolding m by simp_all
    with i3 x(2) have tm: "(fst (msg_id x) + 5000, RemoveStatus (msg_id x)) \<in> set (timers s)"
      by blast
    with o(2) have "\<not> isDue ?T (fst (msg_id x) + 5000, RemoveStatus (msg_id x))"
      unfolding spared_def by fastforce
    with tm show "(fst (msg_id x) + 5000, RemoveStatus (msg_id x)) \<in> set (timers ?s')"
      by (simp add: t)
  qed
  from a b e show ?thesis by (simp add: logInv_def)
qed

lemma advance_member:
  assumes "logInv s" and "snd (msg_id m) \<le> messageCounter s"
  shows "m \<in> set (messages (advance d s)) \<longleftrightarrow>
    m \<in> set (messages s) \<and> (msg_type m = StatusMsg \<longrightarrow> clock s + d < fst (msg_id m) + 5000)"
proof -
  let ?s' = "advance d s"
  let ?T = "clock s + d"
  from advance_effect [OF assms(1), of d] obtain new where
    ms: "messages ?s' = filter (spared (filter (isDue ?T) (timers s))) (messages s) @ new"
    and f: "fresh s ?s' new"
    by blast
  have i2: "\<forall>ta\<in>set (timers s). clock s < fst ta \<and> removalOk s ta"
    and i3: "\<forall>m\<in>set (messages s). msg_type m = StatusMsg \<longrightarrow>
        (fst (msg_id m) + 5000, RemoveStatus (msg_id m)) \<in> set (timers s)"
    using assms(1) by (simp_all add: logInv_def)
  from f assms(2) have n: "m \<notin> set new"
    unfolding fresh_def by fastforce
  show ?thesis
  proof
    assume "m \<in> set (messages ?s')"
    with n have o: "m \<in> set (messages s)" "spared (filter (isDue ?T) (timers s)) m"
      unfolding ms by simp_all
    have "msg_type m = StatusMsg \<longrightarrow> ?T < fst (msg_id m) + 5000"
    proof
      assume "msg_type m = StatusMsg"
      with i3 o(1) have "(fst (msg_id m) + 5000, RemoveStatus (msg_id m)) \<in> set (timers s)"
        by blast
      with o(2) have "\<not> isDue ?T (fst (msg_id m) + 5000, RemoveStatus (msg_id m))"
        unfolding spared_def by fastforce
      then show "?T < fst (msg_id m) + 5000"
        by (simp add: isDue_def)
    qed
    with o(1) show "m \<in> set (messages s) \<and>
        (msg_type m = StatusMsg \<longrightarrow> ?T < fst (msg_id m) + 5000)"
      by simp
  next
    assume r: "m \<in> set (messages s) \<and>
        (msg_type m = StatusMsg \<longrightarrow> ?T < fst (msg_id m) + 5000)"
    have "spared (filter (isDue ?T) (timers s)) m"
      unfolding spared_def
    proof
      fix ta assume "ta \<in> set (filter (isDue ?T) (timers s))"
      then have ta: "ta \<in> set (timers s)" "fst ta \<le> ?T"
        by (simp_all add: isDue_def)
      show "snd ta \<noteq> RemoveStatus (msg_id m)"
      proof
        assume eq: "snd ta = RemoveStatus (msg_id m)"
        from ta(1) i2 have "removalOk s ta" by simp
        with eq r have "fst ta = fst (msg_id m) + 5000" "msg_type m = StatusMsg"
          by (auto simp add: removalOk_def)
        with r ta(2) show False by simp
      qed
    qed
    with r show "m \<in> set (messages ?s')"
      unfolding ms by simp
  qed
qed

lemma counter_advance: "logInv s \<Longrightarrow> messageCounter s \<le> messageCounter (advance d s)"
  using advance_effect [of s d] by blast

lemma addMessage_inv:
  assumes "logInv s"
  shows "logInv (addMessage txt sd ty s)"
proof -
  have i1: "\<forall>m\<in>set (messages s). snd (msg_id m) \<le> messageCounter s"
    and i2: "\<forall>ta\<in>set (timers s). clock s < fst ta \<and> removalOk s ta"
    and i3: "\<forall>m\<in>set (messages s). msg_type m = StatusMsg \<longrightarrow>
        (fst (msg_id m) + 5000, RemoveStatus (msg_id m)) \<in> set (timers s)"
    using assms by (simp_all add: logInv_def)
  let ?s' = "addMessage txt sd ty s"
  have ok: "removalOk ?s' ta" if "ta \<in> set (timers s)" for ta
  proof (cases "snd ta")
    case (RemoveStatus i)
    from that i2 have "removalOk s ta" by simp
    with RemoveStatus show ?thesis
      by (auto simp add: removalOk_def addMessage_def newMessage_def)
  next
    case (AbortFetch rid)
    then show ?thesis by (simp add: removalOk_def)
  qed
  have a: "\<forall>m\<in>set (messages ?s'). snd (msg_id m) \<le> messageCounter ?s'"
    using i1 by (fastforce simp add: addMessage_def newMessage_def)
  have b: "\<forall>ta\<in>set (timers ?s'). clock ?s' < fst ta \<and> removalOk ?s' ta"
  proof
    fix ta assume ta: "ta \<in> set (timers ?s')"
    show "clock ?s' < fst ta \<and> removalOk ?s' ta"
    proof (cases "ta \<in> set (timers s)")
      case True
      with i2 ok show ?thesis
        by (simp add: addMessage_def)
    next
      case False
      with ta have n: "ty = StatusMsg" "ta = (clock s + 5000, RemoveStatus (clock s, messageCounter s + 1))"
        by (auto simp add: addMessage_def newMessage_def split: if_splits)
      have "\<forall>m\<in>set (messages s). msg_id m \<noteq> (clock s, messageCounter s + 1)"
        using i1 by fastforce
      with n show ?thesis
        by (auto simp add: addMessage_def newMessage_def removalOk_def)
    qed
  qed
  have e: "\<forall>m\<in>set (messages ?s'). msg_type m = StatusMsg \<longrightarrow>
        (fst (msg_id m) + 5000, RemoveStatus (msg_id m)) \<in> set (timers ?s')"
    using i3 by (auto simp add: addMessage_def newMessage_def)
  from a b e show ?thesis by (simp add: logInv_def)
qed

lemma addMessage_member:
  "snd (msg_id m) \<le> messageCounter s \<Longrightarrow>
   m \<in> set (messages (addMessage txt sd ty s)) \<longleftrightarrow> m \<in> set (messages s)"
  by (auto simp add: addMessage_def newMessage_def)

lemma tracked_new: "logInv s \<Longrightarrow> tracked (newMessage txt sd ty s) (addMessage txt sd ty s)"
  unfolding tracked_def
  by (intro conjI addMessage_inv) (simp_all add: addMessage_def newMessage_def)

lemma tracked_perform:
  assumes "tracked m s"
  shows "tracked m (perform a s)"
proof -
  from assms have inv: "logInv s" and le: "snd (msg_id m) \<le> messageCounter s"
    and mem: "m \<in> set (messages s) \<longleftrightarrow>
        (msg_type m = StatusMsg \<longrightarrow> clock s < fst (msg_id m) + 5000)"
    by (simp_all add: tracked_def)
  show ?thesis
  proof (cases a)
    case (AddMessage t sd ty)
    have "clock (addMessage t sd ty s) = clock s"
      and "messageCounter s \<le> messageCounter (addMessage t sd ty s)"
      by (simp_all add: addMessage_def)
    with inv le mem show ?thesis
      by (simp add: AddMessage tracked_def addMessage_inv addMessage_member)
  next
    case (Event e)
    show ?thesis
    proof (cases "\<exists>d. e = Advance d")
      case True
      then obtain d where d: "e = Advance d" by blast
      from mem advance_member [OF inv le, of d]
      have "m \<in> set (messages (advance d s)) \<longleftrightarrow>
          (msg_type m = StatusMsg \<longrightarrow> clock (advance d s) < fst (msg_id m) + 5000)"
        by (auto simp add: clock_advance)
      with inv le counter_advance [OF inv, of d] show ?thesis
        by (simp add: Event d tracked_def advance_inv)
    next
      case False
      then have ap: "appends s (step e s)"
        by (intro appends_step) simp
      then have "clock (step e s) = clock s" "messageCounter s \<le> messageCounter (step e s)"
        by (simp_all add: appends_def)
      with inv le mem appends_inv [OF inv ap] appends_member [OF ap le] show ?thesis
        by (simp add: Event tracked_def)
    qed
  qed
qed

lemma tracked_exec: "tracked m s \<Longrightarrow> tracked m (exec acts s)"
  unfolding exec_def by (induction acts arbitrary: s) (simp_all add: tracked_perform)

lemma logInv_perform: "logInv s \<Longrightarrow> logInv (perform a s)"
proof (cases a)
  case (Event e)
  assume inv: "logInv s"
  show ?thesis
  proof (cases "\<exists>d. e = Advance d")
    case True
    with inv show ?thesis
      by (auto simp add: Event advance_inv)
  next
    case False
    then have "appends s (step e s)"
      by (intro appends_step) simp
    with inv show ?thesis
      by (simp add: Event appends_inv)
  qed
next
  case (AddMessage t sd ty)
  assume "logInv s"
  then show ?thesis
    by (simp add: AddMessage addMessage_inv)
qed

lemma logInv_exec: "logInv s \<Longrightarrow> logInv (exec acts s)"
  unfolding exec_def by (induction acts arbitrary: s) (simp_all add: logInv_perform)

text \<open>
  Claim C7. Take any history of the page (events, and calls of \<open>addMessage\<close> of any
  kind), then a call of \<open>addMessage\<close>, then any further history. The message that the
  call created is in the log at the end exactly if it is not a status message or less than
  5000 ms have passed since the call. So a status message is in the log at every moment
  before its 5000 ms are over and at no moment from then on, and a text or error message
  stays in the log whatever happens. Time is the clock of the model, in which a timeout
  fires at the moment it is due.
\<close>

theorem status_lifetime:
  "newMessage txt sd ty (exec acts0 (init a b))
     \<in> set (messages (exec acts (addMessage txt sd ty (exec acts0 (init a b))))) \<longleftrightarrow>
   (ty = StatusMsg \<longrightarrow>
      clock (exec acts (addMessage txt sd ty (exec acts0 (init a b))))
        < clock (exec acts0 (init a b)) + 5000)"
proof -
  let ?s = "exec acts0 (init a b)"
  have "logInv ?s"
    by (simp add: logInv_exec logInv_init)
  then have "tracked (newMessage txt sd ty ?s) (addMessage txt sd ty ?s)"
    by (rule tracked_new)
  then have "tracked (newMessage txt sd ty ?s) (exec acts (addMessage txt sd ty ?s))"
    by (rule tracked_exec)
  then show ?thesis
    by (simp add: tracked_def newMessage_def)
qed

theorem status_lifetime_witness:
  "newMessage (js ''wait'') Bot StatusMsg (exec [] (init True True))
     \<in> set (messages (exec [Event (Advance 4999)]
          (addMessage (js ''wait'') Bot StatusMsg (exec [] (init True True))))) \<and>
   newMessage (js ''wait'') Bot StatusMsg (exec [] (init True True))
     \<notin> set (messages (exec [Event (Advance 5000)]
          (addMessage (js ''wait'') Bot StatusMsg (exec [] (init True True))))) \<and>
   newMessage (js ''hi'') User TextMsg (exec [] (init True True))
     \<in> set (messages (exec [Event (Advance 100000)]
          (addMessage (js ''hi'') User TextMsg (exec [] (init True True)))))"
  using status_lifetime [of "js ''wait''" Bot StatusMsg "[]" True True "[Event (Advance 4999)]"]
    status_lifetime [of "js ''wait''" Bot StatusMsg "[]" True True "[Event (Advance 5000)]"]
    status_lifetime [of "js ''hi''" User TextMsg "[]" True True "[Event (Advance 100000)]"]
  by (simp add: exec_def clock_advance addMessage_def init_def)

end
